theory Spec2Isabelle
  imports Complex_Main "HOL-Library.Multiset"
begin

section \<open>The rows of the database\<close>

text \<open>
  The models of \<^verbatim>\<open>app.py\<close>, one record per SQLAlchemy model, one field per column the
  scheduling code reads or writes. A nullable column is an \<open>option\<close>. A \<^verbatim>\<open>Date\<close> is
  the day's ordinal, so that \<^verbatim>\<open>d + timedelta(days=n)\<close> is \<open>d + n\<close> (the upper bound of
  Python's dates, year 9999, is not modelled). A table of the database is the list of its
  rows, in the order the queries return them.
\<close>

type_synonym date = int

record Student =
  s_id :: int
  student_id :: string
  full_name :: string
  grade :: "int option"
  gender :: "string option"
  country :: "string option"
  s_table_number :: "int option"

record Table =
  t_id :: int
  t_table_number :: int
  capacity :: int
  current_count :: int

record Term =
  tm_id :: int
  tm_name :: string
  tm_start_date :: date
  tm_end_date :: date
  tm_weeks :: int
  tm_is_active :: bool

record WeeklyDutyAssignment =
  wa_id :: int
  wa_term_id :: int
  wa_week_number :: int
  wa_table_number :: int
  wa_start_date :: date
  wa_end_date :: date

record DailyDuty =
  dd_id :: int
  dd_weekly_assignment_id :: int
  dd_date :: date
  dd_shift :: string
  dd_student1_id :: "int option"
  dd_student2_id :: "int option"

record db =
  students :: "Student list"
  tables :: "Table list"
  terms :: "Term list"
  weekly_assignments :: "WeeklyDutyAssignment list"
  daily_duties :: "DailyDuty list"

text \<open>
  The primary key of a new row. The database is SQLite (\<^verbatim>\<open>sqlite:///duty_management.db\<close>)
  and the keys are plain \<^verbatim>\<open>INTEGER PRIMARY KEY\<close> columns: a new row gets one more than the
  largest key in the table, and 1 in an empty table.
\<close>

definition next_id :: "int list \<Rightarrow> int" where
  "next_id ids = (if ids = [] then 1 else Max (set ids) + 1)"

section \<open>The random module\<close>

text \<open>
  The generator's state is the list of the draws to come (0 once the list is used up);
  every call of the random module takes one draw. \<^verbatim>\<open>random.shuffle\<close> is the
  Fisher-Yates loop of the standard library,
  \<^verbatim>\<open>for i in reversed(range(1, len(x))): j = randbelow(i + 1); x[i], x[j] = x[j], x[i]\<close>,
  and \<^verbatim>\<open>random.uniform(a, b)\<close> is \<^verbatim>\<open>a + (b - a) * random()\<close> with \<^verbatim>\<open>random()\<close> a
  multiple of \<open>2 ^ -53\<close> in \<open>[0, 1)\<close>.
\<close>

type_synonym rng = "nat list"

definition next_draw :: "rng \<Rightarrow> nat \<times> rng" where
  "next_draw g = (case g of [] \<Rightarrow> (0, []) | x # g' \<Rightarrow> (x, g'))"

definition randbelow :: "nat \<Rightarrow> rng \<Rightarrow> nat \<times> rng" where
  "randbelow n g = (let (x, g') = next_draw g in (x mod n, g'))"

definition random :: "rng \<Rightarrow> real \<times> rng" where
  "random g = (let (x, g') = next_draw g in (real (x mod 2 ^ 53) / 2 ^ 53, g'))"

definition uniform :: "real \<Rightarrow> real \<Rightarrow> rng \<Rightarrow> real \<times> rng" where
  "uniform a b g = (let (r, g') = random g in (a + (b - a) * r, g'))"

definition swap :: "'a list \<Rightarrow> nat \<Rightarrow> nat \<Rightarrow> 'a list" where
  "swap x i j = x[i := x ! j, j := x ! i]"

fun shuffle_loop :: "nat \<Rightarrow> 'a list \<Rightarrow> rng \<Rightarrow> 'a list \<times> rng" where
  "shuffle_loop 0 x g = (x, g)"
| "shuffle_loop (Suc k) x g =
     (let (j, g') = randbelow (Suc k + 1) g in shuffle_loop k (swap x (Suc k) j) g')"

definition shuffle :: "'a list \<Rightarrow> rng \<Rightarrow> 'a list \<times> rng" where
  "shuffle x g = shuffle_loop (length x - 1) x g"

section \<open>Full-term schedule generation\<close>

text \<open>
  \<^verbatim>\<open>while len(student_pool) < 28: student_pool.extend(table_students)\<close>. The loop does not
  end when \<^verbatim>\<open>table_students\<close> is empty; not returning is \<open>None\<close>.
\<close>

partial_function (option) extend_pool :: "Student list \<Rightarrow> Student list \<Rightarrow> Student list option" where
  "extend_pool table_students student_pool =
     (if length student_pool < 28 then extend_pool table_students (student_pool @ table_students)
      else Some student_pool)"

declare extend_pool.simps [code]

text \<open>
  The body of the two inner loops, the same text in \<^verbatim>\<open>create_duty_schedule_for_term\<close> and
  in \<^verbatim>\<open>regenerate_week\<close>: two students are taken from the pool at \<^verbatim>\<open>student_index\<close> and
  one DailyDuty row is added. The state is the index and the DailyDuty table.
\<close>

definition add_daily_duty ::
  "int \<Rightarrow> Student list \<Rightarrow> date \<Rightarrow> string \<Rightarrow> nat \<times> DailyDuty list \<Rightarrow> nat \<times> DailyDuty list" where
  "add_daily_duty weekly_assignment_id student_pool duty_date shift st =
     (let (student_index, dd) = st;
          student1 = student_pool ! (student_index mod length student_pool);
          student_index = student_index + 1;
          student2 = student_pool ! (student_index mod length student_pool);
          student_index = student_index + 1;
          daily_duty = \<lparr>dd_id = next_id (map dd_id dd),
                        dd_weekly_assignment_id = weekly_assignment_id,
                        dd_date = duty_date,
                        dd_shift = shift,
                        dd_student1_id = Some (s_id student1),
                        dd_student2_id = Some (s_id student2)\<rparr>
      in (student_index, dd @ [daily_duty]))"

definition week_daily_duties :: "int \<Rightarrow> date \<Rightarrow> Student list \<Rightarrow> DailyDuty list \<Rightarrow> DailyDuty list" where
  "week_daily_duties weekly_assignment_id week_start student_pool dd =
     snd (fold (\<lambda>day_offset st.
                  let duty_date = week_start + int day_offset
                  in fold (\<lambda>shift st. add_daily_duty weekly_assignment_id student_pool duty_date shift st)
                       [''AM'', ''PM''] st)
            [0..<7] (0, dd))"

text \<open>\<^verbatim>\<open>Student.query.filter_by(table_number=n).all()\<close>\<close>

definition students_filter_by_table_number :: "Student list \<Rightarrow> int \<Rightarrow> Student list" where
  "students_filter_by_table_number studs n = filter (\<lambda>s. s_table_number s = Some n) studs"

text \<open>
  One turn of the loop over the weeks. The state is the date the week starts at, the
  generator, and the two tables the loop writes.
\<close>

definition week_body ::
  "int \<Rightarrow> Table list \<Rightarrow> Student list \<Rightarrow> int \<Rightarrow>
   date \<times> rng \<times> WeeklyDutyAssignment list \<times> DailyDuty list \<Rightarrow>
   (date \<times> rng \<times> WeeklyDutyAssignment list \<times> DailyDuty list) option" where
  "week_body term_id tabs studs week_num st =
     (let (current_date, g, wa, dd) = st;
          week_start = current_date;
          week_end = week_start + 6;
          table = tabs ! nat ((week_num - 1) mod int (length tabs));
          weekly_assignment = \<lparr>wa_id = next_id (map wa_id wa),
                               wa_term_id = term_id,
                               wa_week_number = week_num,
                               wa_table_number = t_table_number table,
                               wa_start_date = week_start,
                               wa_end_date = week_end\<rparr>;
          wa = wa @ [weekly_assignment];
          table_students = students_filter_by_table_number studs (t_table_number table)
      in if table_students = [] then Some (week_end + 1, g, wa, dd)
         else
           let (student_pool, g) = shuffle table_students g
           in case extend_pool table_students student_pool of
                None \<Rightarrow> None
              | Some student_pool \<Rightarrow>
                  Some (week_end + 1, g, wa,
                        week_daily_duties (wa_id weekly_assignment) week_start student_pool dd))"

fun weeks_loop ::
  "int \<Rightarrow> Table list \<Rightarrow> Student list \<Rightarrow> int list \<Rightarrow>
   date \<times> rng \<times> WeeklyDutyAssignment list \<times> DailyDuty list \<Rightarrow>
   (date \<times> rng \<times> WeeklyDutyAssignment list \<times> DailyDuty list) option" where
  "weeks_loop term_id tabs studs [] st = Some st"
| "weeks_loop term_id tabs studs (week_num # rest) st =
     (case week_body term_id tabs studs week_num st of
        None \<Rightarrow> None
      | Some st' \<Rightarrow> weeks_loop term_id tabs studs rest st')"

text \<open>
  The messages the operations report, for their texts: \<^verbatim>\<open>Successfully_created n\<close> is
  \<^verbatim>\<open>"Successfully created duty schedule for n weeks"\<close>, \<^verbatim>\<open>Exception_text\<close> stands for the
  text of the exception a failed commit raised.
\<close>

datatype message =
  Term_not_found
  | No_tables_available
  | Successfully_created int
  | Exception_text
  | Weekly_assignment_not_found
  | No_students_in_this_table
  | Week_regenerated_successfully

text \<open>
  \<^verbatim>\<open>create_duty_schedule_for_term\<close>. \<open>commit_ok\<close> says whether \<^verbatim>\<open>db.session.commit()\<close>
  succeeds; when it raises, the session is rolled back and the database is as it was.
  \<^verbatim>\<open>WeeklyDutyAssignment.query.filter_by(term_id=term_id).delete()\<close> is a bulk delete: one
  \<^verbatim>\<open>DELETE\<close> statement on the table of the weekly assignments. The cascade of the
  relationship \<^verbatim>\<open>daily_duties\<close> belongs to the session's \<^verbatim>\<open>delete(object)\<close> and is not run
  by a bulk delete, and the foreign key of DailyDuty declares no \<^verbatim>\<open>ON DELETE\<close> action, so
  the statement removes no DailyDuty row.
\<close>

definition create_duty_schedule_for_term ::
  "int \<Rightarrow> bool \<Rightarrow> rng \<Rightarrow> db \<Rightarrow> (bool \<times> message \<times> db) option" where
  "create_duty_schedule_for_term term_id commit_ok g d =
     (case find (\<lambda>t. tm_id t = term_id) (terms d) of
        None \<Rightarrow> Some (False, Term_not_found, d)
      | Some term \<Rightarrow>
          let tabs = sort_key t_table_number (tables d)
          in if tabs = [] then Some (False, No_tables_available, d)
             else
               let wa = filter (\<lambda>w. wa_term_id w \<noteq> term_id) (weekly_assignments d)
               in (case weeks_loop term_id tabs (students d) [1..tm_weeks term]
                          (tm_start_date term, g, wa, daily_duties d) of
                     None \<Rightarrow> None
                   | Some (current_date, g', wa', dd') \<Rightarrow>
                       if commit_ok
                       then Some (True, Successfully_created (tm_weeks term),
                                  d\<lparr>weekly_assignments := wa', daily_duties := dd'\<rparr>)
                       else Some (False, Exception_text, d)))"

text \<open>
  \<^verbatim>\<open>DailyDuty.query.filter_by(weekly_assignment_id=i)\<close> and
  \<^verbatim>\<open>WeeklyDutyAssignment.query.filter_by(term_id=i)\<close>.
\<close>

definition daily_filter_by_weekly_assignment_id :: "DailyDuty list \<Rightarrow> int \<Rightarrow> DailyDuty list" where
  "daily_filter_by_weekly_assignment_id dd wid = filter (\<lambda>x. dd_weekly_assignment_id x = wid) dd"

definition weekly_filter_by_term_id :: "WeeklyDutyAssignment list \<Rightarrow> int \<Rightarrow> WeeklyDutyAssignment list" where
  "weekly_filter_by_term_id wa tid = filter (\<lambda>w. wa_term_id w = tid) wa"

section \<open>Regenerating one week\<close>

text \<open>
  \<^verbatim>\<open>regenerate_week\<close>. The answer is the JSON body's \<^verbatim>\<open>success\<close>, its message and the HTTP
  status. \<^verbatim>\<open>DailyDuty.query.filter_by(weekly_assignment_id=...).delete()\<close> removes the rows of
  this weekly assignment; the rest of the body is the pool and the two inner loops of the
  full generation. Any exception is caught, the session rolled back and status 500 sent:
  \<open>commit_ok\<close> says whether the commit succeeds.
\<close>

definition regenerate_week ::
  "int \<Rightarrow> bool \<Rightarrow> rng \<Rightarrow> db \<Rightarrow> ((bool \<times> message \<times> nat) \<times> db) option" where
  "regenerate_week weekly_assignment_id commit_ok g d =
     (case find (\<lambda>w. wa_id w = weekly_assignment_id) (weekly_assignments d) of
        None \<Rightarrow> Some ((False, Weekly_assignment_not_found, 404), d)
      | Some weekly_assignment \<Rightarrow>
          let table_students =
                students_filter_by_table_number (students d) (wa_table_number weekly_assignment)
          in if table_students = [] then Some ((False, No_students_in_this_table, 400), d)
             else
               let dd = filter (\<lambda>x. dd_weekly_assignment_id x \<noteq> weekly_assignment_id)
                          (daily_duties d);
                   (student_pool, g) = shuffle table_students g
               in (case extend_pool table_students student_pool of
                     None \<Rightarrow> None
                   | Some student_pool \<Rightarrow>
                       let dd = week_daily_duties (wa_id weekly_assignment)
                                  (wa_start_date weekly_assignment) student_pool dd
                       in if commit_ok
                          then Some ((True, Week_regenerated_successfully, 200),
                                     d\<lparr>daily_duties := dd\<rparr>)
                          else Some ((False, Exception_text, 500), d)))"

section \<open>Distributing the students over the tables\<close>

text \<open>
  Python dictionaries keep their keys in the order of insertion: a dictionary is the list
  of its items. \<open>dict_setitem\<close> is \<^verbatim>\<open>d[k] = v\<close>; \<open>dict_append\<close> is \<^verbatim>\<open>d[k].append(x)\<close> on a
  \<^verbatim>\<open>defaultdict(list)\<close>, which makes the entry when the key is new. The distributor also
  appends to the plain dictionary \<^verbatim>\<open>table_assignments\<close>, always under one of its own keys
  (lemmas \<open>place_student_step\<close> and \<open>fallback_loop_keys\<close>), where the two agree.
\<close>

fun dict_setitem :: "('k \<times> 'v) list \<Rightarrow> 'k \<Rightarrow> 'v \<Rightarrow> ('k \<times> 'v) list" where
  "dict_setitem [] k v = [(k, v)]"
| "dict_setitem ((k', v') # rest) k v =
     (if k' = k then (k, v) # rest else (k', v') # dict_setitem rest k v)"

fun dict_append :: "('k \<times> 'a list) list \<Rightarrow> 'k \<Rightarrow> 'a \<Rightarrow> ('k \<times> 'a list) list" where
  "dict_append [] k x = [(k, [x])]"
| "dict_append ((k', v) # rest) k x =
     (if k' = k then (k', v @ [x]) # rest else (k', v) # dict_append rest k x)"

text \<open>\<^verbatim>\<open>by_grade[grade]\<close> on the \<^verbatim>\<open>defaultdict(list)\<close>: the empty list for a key it has not.\<close>

definition dict_getitem_default :: "('k \<times> 'a list) list \<Rightarrow> 'k \<Rightarrow> 'a list" where
  "dict_getitem_default d k = (case map_of d k of None \<Rightarrow> [] | Some v \<Rightarrow> v)"

text \<open>
  \<^verbatim>\<open>student.grade if student.grade else 'unknown'\<close>: the key \<open>None\<close> is \<^verbatim>\<open>'unknown'\<close>, for a
  grade that is absent or 0. (\<^verbatim>\<open>by_gender\<close> and \<^verbatim>\<open>by_country\<close> are filled by the same loop
  and never read; they are left out.)
\<close>

definition grade_key :: "Student \<Rightarrow> int option" where
  "grade_key student = (if grade student = None \<or> grade student = Some 0 then None else grade student)"

text \<open>
  The score of a table before the jitter, from the students placed at it so far in this
  run: \<^verbatim>\<open>(same_grade * 3) + (same_gender * 2) + (same_country * 2)\<close>. Python's \<^verbatim>\<open>==\<close> holds
  between two absent values.
\<close>

definition collisions :: "Student \<Rightarrow> Student list \<Rightarrow> nat" where
  "collisions student current_students =
     (let same_grade = length (filter (\<lambda>s. grade s = grade student) current_students);
          same_gender = length (filter (\<lambda>s. gender s = gender student) current_students);
          same_country = length (filter (\<lambda>s. country s = country student) current_students)
      in (same_grade * 3) + (same_gender * 2) + (same_country * 2))"

text \<open>
  \<^verbatim>\<open>for table_num in available_tables\<close>, where \<^verbatim>\<open>available_tables\<close> is the list of the keys
  of \<^verbatim>\<open>table_assignments\<close> and \<^verbatim>\<open>current_students\<close> the value under the key: the loop runs
  over the items. \<open>best\<close> is the pair of \<^verbatim>\<open>best_table\<close> and \<^verbatim>\<open>best_score\<close>, \<open>None\<close> while they
  are \<^verbatim>\<open>None\<close> and \<^verbatim>\<open>float('inf')\<close>; the two are only written together. The scores are real
  numbers: the sum of a small integer and the jitter (floating-point rounding of the sum is
  monotone and is not modelled).
\<close>

fun best_table_loop ::
  "Student \<Rightarrow> (int \<times> Student list) list \<Rightarrow> (int \<times> real) option \<Rightarrow> rng \<Rightarrow> (int \<times> real) option \<times> rng" where
  "best_table_loop student [] best g = (best, g)"
| "best_table_loop student ((table_num, current_students) # rest) best g =
     (let score = real (collisions student current_students);
          (jitter, g) = uniform 0 2 g;
          score = score + jitter;
          best = (if (case best of None \<Rightarrow> True | Some (best_table, best_score) \<Rightarrow> score < best_score)
                  then Some (table_num, score) else best)
      in best_table_loop student rest best g)"

text \<open>
  The body of the loop over the students of a grade. \<^verbatim>\<open>if best_table:\<close> is false for
  \<^verbatim>\<open>None\<close> and for the table number 0. The set \<^verbatim>\<open>assigned_students\<close> holds objects; a
  student object is the row with its primary key, so the set is kept as the set of keys.
\<close>

definition place_student ::
  "Student \<Rightarrow> (int \<times> Student list) list \<times> int set \<times> rng \<Rightarrow>
   (int \<times> Student list) list \<times> int set \<times> rng" where
  "place_student student st =
     (let (table_assignments, assigned_students, g) = st;
          (best, g) = best_table_loop student table_assignments None g
      in case best of
           None \<Rightarrow> (table_assignments, assigned_students, g)
         | Some (best_table, best_score) \<Rightarrow>
             if best_table \<noteq> 0
             then (dict_append table_assignments best_table student,
                   insert (s_id student) assigned_students, g)
             else (table_assignments, assigned_students, g))"

text \<open>\<^verbatim>\<open>for student in grade_students\<close>, with its \<^verbatim>\<open>break\<close> when there is no table.\<close>

fun students_loop ::
  "Student list \<Rightarrow> (int \<times> Student list) list \<times> int set \<times> rng \<Rightarrow>
   (int \<times> Student list) list \<times> int set \<times> rng" where
  "students_loop [] st = st"
| "students_loop (student # rest) (table_assignments, assigned_students, g) =
     (if table_assignments = [] then (table_assignments, assigned_students, g)
      else students_loop rest (place_student student (table_assignments, assigned_students, g)))"

text \<open>\<^verbatim>\<open>for grade in grade_keys\<close>.\<close>

fun grades_loop ::
  "(int option \<times> Student list) list \<Rightarrow> int option list \<Rightarrow>
   (int \<times> Student list) list \<times> int set \<times> rng \<Rightarrow>
   (int \<times> Student list) list \<times> int set \<times> rng" where
  "grades_loop by_grade [] st = st"
| "grades_loop by_grade (grade_k # rest) (table_assignments, assigned_students, g) =
     (let grade_students = filter (\<lambda>s. s_id s \<notin> assigned_students)
                             (dict_getitem_default by_grade grade_k);
          (grade_students, g) = shuffle grade_students g
      in grades_loop by_grade rest
           (students_loop grade_students (table_assignments, assigned_students, g)))"

text \<open>\<^verbatim>\<open>for idx, student in enumerate(remaining_students)\<close>: the round-robin fallback.\<close>

definition fallback_loop ::
  "Student list \<Rightarrow> (int \<times> Student list) list \<times> int set \<Rightarrow> (int \<times> Student list) list \<times> int set" where
  "fallback_loop remaining_students st =
     (let table_list = map fst (fst st)
      in fold (\<lambda>(idx, student) (table_assignments, assigned_students).
                 let table_num = table_list ! (idx mod length table_list)
                 in (dict_append table_assignments table_num student,
                     insert (s_id student) assigned_students))
           (enumerate 0 remaining_students) st)"

text \<open>
  \<^verbatim>\<open>student.table_number = table_num\<close> for every student of every list of
  \<^verbatim>\<open>table_assignments\<close>: the object is the row of the database with that key.
\<close>

definition set_table_number :: "int \<Rightarrow> int option \<Rightarrow> Student list \<Rightarrow> Student list" where
  "set_table_number i n studs = map (\<lambda>s. if s_id s = i then s\<lparr>s_table_number := n\<rparr> else s) studs"

definition write_table_numbers :: "(int \<times> Student list) list \<Rightarrow> Student list \<Rightarrow> Student list" where
  "write_table_numbers table_assignments studs =
     fold (\<lambda>(table_num, students_list) studs.
             fold (\<lambda>student studs. set_table_number (s_id student) (Some table_num) studs)
               students_list studs)
       table_assignments studs"

datatype flash_message =
  No_tables_available_create_first
  | No_unassigned_students
  | Successfully_distributed nat
  | Error_during_distribution
  | Table_does_not_exist "int option"
  | Student_moved string "int option"
  | Error_changing_table

text \<open>
  \<^verbatim>\<open>distribute_students_to_tables_smart\<close>. It returns its boolean, the message it flashes
  with the category, and the database. The last loop counts, for each table, the students
  of the list \<^verbatim>\<open>students\<close> whose table number is the table's: this list is the result of
  the first query, the students that had no table when the run began (as objects, so with
  the table numbers the run has just written).
\<close>

definition distribute_students_to_tables_smart ::
  "bool \<Rightarrow> rng \<Rightarrow> db \<Rightarrow> bool \<times> (flash_message \<times> string) \<times> db" where
  "distribute_students_to_tables_smart commit_ok g d =
     (let studs = filter (\<lambda>s. s_table_number s = None) (students d);
          tabs = sort_key t_table_number (tables d)
      in if tabs = [] then (False, (No_tables_available_create_first, ''error''), d)
         else if studs = [] then (True, (No_unassigned_students, ''info''), d)
         else
           let (studs, g) = shuffle studs g;
               table_assignments = fold (\<lambda>table ta. dict_setitem ta (t_table_number table) []) tabs [];
               by_grade = fold (\<lambda>student bg. dict_append bg (grade_key student) student) studs [];
               grade_keys = map fst by_grade;
               (grade_keys, g) = shuffle grade_keys g;
               (table_assignments, assigned_students, g) =
                 grades_loop by_grade grade_keys (table_assignments, {}, g);
               remaining_students = filter (\<lambda>s. s_id s \<notin> assigned_students) studs;
               (remaining_students, g) = shuffle remaining_students g;
               (table_assignments, assigned_students) =
                 fallback_loop remaining_students (table_assignments, assigned_students);
               db_students = write_table_numbers table_assignments (students d);
               students_now = filter (\<lambda>s. s_id s \<in> s_id ` set studs) db_students;
               db_tables = map (\<lambda>table. table\<lparr>current_count :=
                               int (length (filter (\<lambda>s. s_table_number s = Some (t_table_number table))
                                              students_now))\<rparr>) (tables d)
           in if commit_ok
              then (True, (Successfully_distributed (card assigned_students), ''success''),
                    d\<lparr>students := db_students, tables := db_tables\<rparr>)
              else (False, (Error_during_distribution, ''error''), d))"

text \<open>
  The score the loop of \<open>best_table_loop\<close> computes for each table, jitter included, in the
  order of the loop: the values the variable \<^verbatim>\<open>score\<close> takes at line 277.
\<close>

fun table_scores :: "Student \<Rightarrow> (int \<times> Student list) list \<Rightarrow> rng \<Rightarrow> (int \<times> real) list" where
  "table_scores student [] g = []"
| "table_scores student ((table_num, current_students) # rest) g =
     (let score = real (collisions student current_students);
          (jitter, g) = uniform 0 2 g;
          score = score + jitter
      in (table_num, score) # table_scores student rest g)"

text \<open>
  For the proofs: the students in the lists of a dictionary; what the writing back of the
  table numbers does to one row; and what holds of \<^verbatim>\<open>table_assignments\<close> and
  \<^verbatim>\<open>assigned_students\<close> all through the run (the keys stay, and every student of the set
  is in one of the lists).
\<close>

definition listed :: "('k \<times> 'a list) list \<Rightarrow> 'a set" where
  "listed d = (\<Union>(k, v)\<in>set d. set v)"

definition write_student :: "int \<Rightarrow> Student list \<Rightarrow> Student \<Rightarrow> Student" where
  "write_student table_num students_list r =
     fold (\<lambda>student r. if s_id r = s_id student then r\<lparr>s_table_number := Some table_num\<rparr> else r)
       students_list r"

definition write_row :: "(int \<times> Student list) list \<Rightarrow> Student \<Rightarrow> Student" where
  "write_row ta r = fold (\<lambda>(table_num, students_list). write_student table_num students_list) ta r"

definition dist_inv :: "int list \<Rightarrow> (int \<times> Student list) list \<times> int set \<times> rng \<Rightarrow> bool" where
  "dist_inv K st \<longleftrightarrow> (case st of (ta, assigned, g) \<Rightarrow>
     map fst ta = K \<and> assigned \<subseteq> s_id ` listed ta)"

section \<open>Moving one student by hand\<close>

text \<open>
  \<^verbatim>\<open>Table.query.filter_by(table_number=n).first()\<close> followed by the assignment of its
  \<^verbatim>\<open>current_count\<close>: the first table with the number gets the count.
\<close>

fun set_first_current_count :: "int \<Rightarrow> int \<Rightarrow> Table list \<Rightarrow> Table list" where
  "set_first_current_count n c [] = []"
| "set_first_current_count n c (t # ts) =
     (if t_table_number t = n then t\<lparr>current_count := c\<rparr> # ts
      else t # set_first_current_count n c ts)"

text \<open>
  \<^verbatim>\<open>change_student_table\<close>. \<open>new_table_number\<close> is the form's value read with
  \<^verbatim>\<open>type=int\<close>, \<open>None\<close> when it is missing or no integer; 0 asks to take the student off
  the tables. The answer is the HTTP status and the message flashed. There are two
  commits: the student's move is committed first, the two counts afterwards; the counts
  are taken over all students of the table, \<^verbatim>\<open>Student.query.filter_by(table_number=n).count()\<close>.
  \<^verbatim>\<open>if old_table_number:\<close> is false for a student without table and for the table number 0.
\<close>

definition change_student_table ::
  "int \<Rightarrow> int option \<Rightarrow> bool \<Rightarrow> bool \<Rightarrow> db \<Rightarrow> (nat \<times> (flash_message \<times> string) option) \<times> db" where
  "change_student_table student_pk new_table_number commit1_ok commit2_ok d =
     (case find (\<lambda>s. s_id s = student_pk) (students d) of
        None \<Rightarrow> ((404, None), d)
      | Some student \<Rightarrow>
          let old_table_number = s_table_number student
          in if new_table_number \<noteq> Some 0 \<and>
                find (\<lambda>t. Some (t_table_number t) = new_table_number) (tables d) = None
             then ((302, Some (Table_does_not_exist new_table_number, ''error'')), d)
             else
               let studs = set_table_number student_pk
                             (if new_table_number = Some 0 then None else new_table_number)
                             (students d)
               in if \<not> commit1_ok then ((302, Some (Error_changing_table, ''error'')), d)
                  else
                    let tabs = tables d;
                        tabs = (case old_table_number of
                                  None \<Rightarrow> tabs
                                | Some n \<Rightarrow>
                                    if n \<noteq> 0
                                    then set_first_current_count n
                                           (int (length (students_filter_by_table_number studs n))) tabs
                                    else tabs);
                        tabs = (case new_table_number of
                                  None \<Rightarrow> tabs
                                | Some n \<Rightarrow>
                                    if n \<noteq> 0
                                    then set_first_current_count n
                                           (int (length (students_filter_by_table_number studs n))) tabs
                                    else tabs)
                    in if commit2_ok
                       then ((302, Some (Student_moved (student_id student)
                                           (if new_table_number = Some 0 then None else new_table_number),
                                         ''success'')),
                             d\<lparr>students := studs, tables := tabs\<rparr>)
                       else ((302, Some (Error_changing_table, ''error'')), d\<lparr>students := studs\<rparr>))"

text \<open>
  Every table's \<open>current_count\<close> is the number of the students with the table's number.
\<close>

definition counts_consistent :: "db \<Rightarrow> bool" where
  "counts_consistent d \<longleftrightarrow>
     (\<forall>t\<in>set (tables d).
        current_count t = int (length (students_filter_by_table_number (students d) (t_table_number t))))"

section \<open>A small database\<close>

text \<open>
  The scenario of the specification: a term of two weeks that starts on 2024-01-01 (day
  738886) and two tables, here with one student each.
\<close>

definition alice :: Student where
  "alice = \<lparr>s_id = 1, student_id = ''S001'', full_name = ''Alice'', grade = Some 9,
            gender = Some ''F'', country = Some ''SG'', s_table_number = Some 1\<rparr>"

definition bob :: Student where
  "bob = \<lparr>s_id = 2, student_id = ''S002'', full_name = ''Bob'', grade = Some 10,
          gender = Some ''M'', country = Some ''VN'', s_table_number = Some 2\<rparr>"

definition table1 :: Table where
  "table1 = \<lparr>t_id = 1, t_table_number = 1, capacity = 8, current_count = 1\<rparr>"

definition table2 :: Table where
  "table2 = \<lparr>t_id = 2, t_table_number = 2, capacity = 8, current_count = 1\<rparr>"

definition term1 :: Term where
  "term1 = \<lparr>tm_id = 1, tm_name = ''Spring'', tm_start_date = 738886, tm_end_date = 738900,
            tm_weeks = 2, tm_is_active = True\<rparr>"

definition example_db :: db where
  "example_db = \<lparr>students = [alice, bob], tables = [table2, table1], terms = [term1],
                 weekly_assignments = [], daily_duties = []\<rparr>"

text \<open>
  The same database with a schedule of three weeks in it, for the tables 1, 2 and 3 (no
  student sits at table 3), and one DailyDuty row in each week.
\<close>

definition week1 :: WeeklyDutyAssignment where
  "week1 = \<lparr>wa_id = 1, wa_term_id = 1, wa_week_number = 1, wa_table_number = 1,
            wa_start_date = 738886, wa_end_date = 738892\<rparr>"

definition week2 :: WeeklyDutyAssignment where
  "week2 = \<lparr>wa_id = 2, wa_term_id = 1, wa_week_number = 2, wa_table_number = 2,
            wa_start_date = 738893, wa_end_date = 738899\<rparr>"

definition week3 :: WeeklyDutyAssignment where
  "week3 = \<lparr>wa_id = 3, wa_term_id = 1, wa_week_number = 3, wa_table_number = 3,
            wa_start_date = 738900, wa_end_date = 738906\<rparr>"

definition duty1 :: DailyDuty where
  "duty1 = \<lparr>dd_id = 1, dd_weekly_assignment_id = 1, dd_date = 738886, dd_shift = ''AM'',
            dd_student1_id = Some 1, dd_student2_id = Some 1\<rparr>"

definition duty2 :: DailyDuty where
  "duty2 = \<lparr>dd_id = 2, dd_weekly_assignment_id = 2, dd_date = 738893, dd_shift = ''AM'',
            dd_student1_id = Some 2, dd_student2_id = None\<rparr>"

definition duty3 :: DailyDuty where
  "duty3 = \<lparr>dd_id = 3, dd_weekly_assignment_id = 3, dd_date = 738900, dd_shift = ''PM'',
            dd_student1_id = Some 1, dd_student2_id = Some 2\<rparr>"

definition scheduled_db :: db where
  "scheduled_db = example_db\<lparr>weekly_assignments := [week1, week2, week3],
                              daily_duties := [duty1, duty2, duty3]\<rparr>"

text \<open>
  Two students who have no table yet, and the database after an upload: Alice already sits
  at table 1, the only table, and Carol has just been imported.
\<close>

definition carol :: Student where
  "carol = \<lparr>s_id = 3, student_id = ''S003'', full_name = ''Carol'', grade = Some 9,
            gender = Some ''F'', country = Some ''SG'', s_table_number = None\<rparr>"

definition dave :: Student where
  "dave = \<lparr>s_id = 4, student_id = ''S004'', full_name = ''Dave'', grade = None,
           gender = Some ''M'', country = None, s_table_number = None\<rparr>"

definition unassigned_db :: db where
  "unassigned_db = example_db\<lparr>students := [alice, bob, carol, dave]\<rparr>"

definition upload_db :: db where
  "upload_db = \<lparr>students = [alice, carol], tables = [table1], terms = [],
                weekly_assignments = [], daily_duties = []\<rparr>"

text \<open>One term of one week, one table, one student, and no schedule yet.\<close>

definition small_db :: db where
  "small_db = \<lparr>students = [alice], tables = [table1],
      terms = [\<lparr>tm_id = 1, tm_name = ''Spring'', tm_start_date = 738886, tm_end_date = 738893,
                tm_weeks = 1, tm_is_active = True\<rparr>],
      weekly_assignments = [], daily_duties = []\<rparr>"

section \<open>What a week of the schedule looks like\<close>

text \<open>
  The DailyDuty rows of a weekly assignment are as they should be: none when the table has
  no student; otherwise one row for each of the seven dates of the week and each of the
  two shifts, in that order; and every slot holds a student of the table.
\<close>

definition week_duties_ok :: "Student list \<Rightarrow> WeeklyDutyAssignment \<Rightarrow> DailyDuty list \<Rightarrow> bool" where
  "week_duties_ok studs r rows \<longleftrightarrow>
     (if students_filter_by_table_number studs (wa_table_number r) = [] then rows = []
      else map (\<lambda>x. (dd_date x, dd_shift x)) rows
             = List.product (map (\<lambda>k. wa_start_date r + int k) [0..<7]) [''AM'', ''PM'']) \<and>
     (\<forall>x\<in>set rows.
        (\<exists>s\<in>set (students_filter_by_table_number studs (wa_table_number r)).
            dd_student1_id x = Some (s_id s)) \<and>
        (\<exists>s\<in>set (students_filter_by_table_number studs (wa_table_number r)).
            dd_student2_id x = Some (s_id s)))"

section \<open>Keys, shuffles and the pool\<close>

lemma next_id_greater: "i \<in> set ids \<Longrightarrow> i < next_id ids"
proof -
  assume a: "i \<in> set ids"
  then have "ids \<noteq> []" by auto
  moreover have "i \<le> Max (set ids)" using a by simp
  ultimately show ?thesis by (simp add: next_id_def)
qed

lemma next_id_fresh: "next_id ids \<notin> set ids"
  using next_id_greater [of "next_id ids" ids] by auto

lemma randbelow_less: "0 < n \<Longrightarrow> fst (randbelow n g) < n"
  by (simp add: randbelow_def next_draw_def split: list.splits)

lemma mset_swap_list: "i < length x \<Longrightarrow> j < length x \<Longrightarrow> mset (swap x i j) = mset x"
  unfolding swap_def by (simp add: mset_swap)

lemma length_swap: "length (swap x i j) = length x"
  by (simp add: swap_def)

lemma shuffle_loop_mset: "k < length x \<Longrightarrow> mset (fst (shuffle_loop k x g)) = mset x"
proof (induction k arbitrary: x g)
  case 0
  then show ?case by simp
next
  case (Suc k)
  obtain j g' where r: "randbelow (Suc k + 1) g = (j, g')" by (cases "randbelow (Suc k + 1) g")
  have "fst (randbelow (Suc k + 1) g) < Suc k + 1" by (rule randbelow_less) simp
  with r have j: "j < length x" using Suc.prems by simp
  have "mset (fst (shuffle_loop k (swap x (Suc k) j) g')) = mset (swap x (Suc k) j)"
    using Suc.prems by (intro Suc.IH) (simp add: length_swap)
  also have "\<dots> = mset x" using Suc.prems j by (simp add: mset_swap_list)
  finally show ?case using r by simp
qed

lemma shuffle_mset: "mset (fst (shuffle x g)) = mset x"
proof (cases x)
  case Nil
  then show ?thesis by (simp add: shuffle_def)
next
  case (Cons a as)
  then show ?thesis unfolding shuffle_def by (intro shuffle_loop_mset) simp
qed

lemma shuffle_set: "set (fst (shuffle x g)) = set x"
  using shuffle_mset [of x g] by (metis set_mset_mset)

lemma shuffle_length: "length (fst (shuffle x g)) = length x"
  using shuffle_mset [of x g] by (metis size_mset)

lemma extend_pool_returns:
  "table_students \<noteq> [] \<Longrightarrow>
   \<exists>p. extend_pool table_students pool = Some p \<and> 28 \<le> length p \<and>
       set p \<subseteq> set pool \<union> set table_students"
proof (induction "28 - length pool" arbitrary: pool rule: less_induct)
  case less
  show ?case
  proof (cases "length pool < 28")
    case True
    have "28 - length (pool @ table_students) < 28 - length pool"
      using True less.prems by (cases table_students) auto
    from less.hyps [OF this less.prems]
    obtain p where "extend_pool table_students (pool @ table_students) = Some p"
      "28 \<le> length p" "set p \<subseteq> set (pool @ table_students) \<union> set table_students" by blast
    then show ?thesis using True by (subst extend_pool.simps) auto
  next
    case False
    then show ?thesis by (subst extend_pool.simps) auto
  qed
qed

lemma fold_nested:
  "fold (\<lambda>x. fold (f x) ys) xs s = fold (\<lambda>(x, y). f x y) (List.product xs ys) s"
  by (induction xs arbitrary: s) (simp_all add: fold_map comp_def)

lemma add_daily_duty_fold:
  assumes "student_pool \<noteq> []"
  shows "\<exists>rows. fold (\<lambda>(duty_date, shift). add_daily_duty wid student_pool duty_date shift) ps (i, dd)
             = (i + 2 * length ps, dd @ rows) \<and>
           map (\<lambda>r. (dd_date r, dd_shift r)) rows = ps \<and>
           (\<forall>r\<in>set rows. dd_weekly_assignment_id r = wid \<and>
              (\<exists>s\<in>set student_pool. dd_student1_id r = Some (s_id s)) \<and>
              (\<exists>s\<in>set student_pool. dd_student2_id r = Some (s_id s)))"
proof (induction ps arbitrary: i dd)
  case Nil
  then show ?case by simp
next
  case (Cons p ps)
  obtain duty_date shift where p: "p = (duty_date, shift)" by (cases p)
  define r where "r = \<lparr>dd_id = next_id (map dd_id dd), dd_weekly_assignment_id = wid,
    dd_date = duty_date, dd_shift = shift,
    dd_student1_id = Some (s_id (student_pool ! (i mod length student_pool))),
    dd_student2_id = Some (s_id (student_pool ! ((i + 1) mod length student_pool)))\<rparr>"
  have step: "add_daily_duty wid student_pool duty_date shift (i, dd) = (i + 2, dd @ [r])"
    by (simp add: add_daily_duty_def r_def Let_def)
  have mem: "student_pool ! (k mod length student_pool) \<in> set student_pool" for k
    using assms by simp
  from Cons.IH [of "i + 2" "dd @ [r]"] obtain rows where
    rows: "fold (\<lambda>(duty_date, shift). add_daily_duty wid student_pool duty_date shift) ps (i + 2, dd @ [r])
             = (i + 2 + 2 * length ps, (dd @ [r]) @ rows)"
      "map (\<lambda>r. (dd_date r, dd_shift r)) rows = ps"
      "\<forall>r\<in>set rows. dd_weekly_assignment_id r = wid \<and>
              (\<exists>s\<in>set student_pool. dd_student1_id r = Some (s_id s)) \<and>
              (\<exists>s\<in>set student_pool. dd_student2_id r = Some (s_id s))" by blast
  have good: "dd_weekly_assignment_id r = wid \<and>
              (\<exists>s\<in>set student_pool. dd_student1_id r = Some (s_id s)) \<and>
              (\<exists>s\<in>set student_pool. dd_student2_id r = Some (s_id s))"
    using mem by (auto simp: r_def)
  show ?case
    apply (rule exI [of _ "r # rows"])
    using rows good by (simp add: p step r_def)
qed

lemma week_daily_duties_rows:
  assumes "student_pool \<noteq> []"
  shows "\<exists>rows. week_daily_duties wid week_start student_pool dd = dd @ rows \<and>
           map (\<lambda>r. (dd_date r, dd_shift r)) rows
             = List.product (map (\<lambda>k. week_start + int k) [0..<7]) [''AM'', ''PM''] \<and>
           (\<forall>r\<in>set rows. dd_weekly_assignment_id r = wid \<and>
              (\<exists>s\<in>set student_pool. dd_student1_id r = Some (s_id s)) \<and>
              (\<exists>s\<in>set student_pool. dd_student2_id r = Some (s_id s)))"
proof -
  let ?ps = "List.product (map (\<lambda>k. week_start + int k) [0..<7]) [''AM'', ''PM'']"
  have "week_daily_duties wid week_start student_pool dd
      = snd (fold (\<lambda>d. fold (add_daily_duty wid student_pool d) [''AM'', ''PM''])
               (map (\<lambda>k. week_start + int k) [0..<7]) (0, dd))"
    unfolding week_daily_duties_def Let_def fold_map comp_def ..
  also have "\<dots> = snd (fold (\<lambda>(d, shift). add_daily_duty wid student_pool d shift) ?ps (0, dd))"
    by (simp only: fold_nested)
  finally have eq: "week_daily_duties wid week_start student_pool dd
      = snd (fold (\<lambda>(d, shift). add_daily_duty wid student_pool d shift) ?ps (0, dd))" .
  from add_daily_duty_fold [OF assms, of wid ?ps 0 dd] show ?thesis
    unfolding eq by auto
qed

section \<open>The loop over the weeks\<close>

lemma week_body_step:
  "\<exists>g' row rows.
     week_body term_id tabs studs week_num (current_date, g, wa, dd)
       = Some (current_date + 7, g', wa @ [row], dd @ rows) \<and>
     wa_id row = next_id (map wa_id wa) \<and> wa_term_id row = term_id \<and>
     wa_week_number row = week_num \<and>
     wa_table_number row = t_table_number (tabs ! nat ((week_num - 1) mod int (length tabs))) \<and>
     wa_start_date row = current_date \<and> wa_end_date row = current_date + 6 \<and>
     (if students_filter_by_table_number studs (wa_table_number row) = [] then rows = []
      else map (\<lambda>r. (dd_date r, dd_shift r)) rows
             = List.product (map (\<lambda>k. current_date + int k) [0..<7]) [''AM'', ''PM'']) \<and>
     (\<forall>r\<in>set rows. dd_weekly_assignment_id r = wa_id row \<and>
        (\<exists>s\<in>set (students_filter_by_table_number studs (wa_table_number row)).
            dd_student1_id r = Some (s_id s)) \<and>
        (\<exists>s\<in>set (students_filter_by_table_number studs (wa_table_number row)).
            dd_student2_id r = Some (s_id s)))"
proof -
  define row where "row = \<lparr>wa_id = next_id (map wa_id wa), wa_term_id = term_id,
    wa_week_number = week_num,
    wa_table_number = t_table_number (tabs ! nat ((week_num - 1) mod int (length tabs))),
    wa_start_date = current_date, wa_end_date = current_date + 6\<rparr>"
  let ?ts = "students_filter_by_table_number studs
               (t_table_number (tabs ! nat ((week_num - 1) mod int (length tabs))))"
  show ?thesis
  proof (cases "?ts = []")
    case True
    have "week_body term_id tabs studs week_num (current_date, g, wa, dd)
            = Some (current_date + 7, g, wa @ [row], dd @ [])"
      using True by (simp add: week_body_def row_def Let_def)
    then show ?thesis
      apply (intro exI [of _ g] exI [of _ row] exI [of _ "[]"])
      using True by (simp add: row_def)
  next
    case False
    obtain pool0 g' where sh: "shuffle ?ts g = (pool0, g')" by (cases "shuffle ?ts g")
    have s0: "set pool0 = set ?ts" using shuffle_set [of ?ts g] sh by simp
    from extend_pool_returns [OF False, of pool0] obtain p where
      p: "extend_pool ?ts pool0 = Some p" "28 \<le> length p" "set p \<subseteq> set pool0 \<union> set ?ts"
      by blast
    have pne: "p \<noteq> []" using p(2) by auto
    have psub: "set p \<subseteq> set ?ts" using p(3) s0 by simp
    from week_daily_duties_rows [OF pne, of "next_id (map wa_id wa)" current_date dd]
    obtain rows where rows:
      "week_daily_duties (next_id (map wa_id wa)) current_date p dd = dd @ rows"
      "map (\<lambda>r. (dd_date r, dd_shift r)) rows
         = List.product (map (\<lambda>k. current_date + int k) [0..<7]) [''AM'', ''PM'']"
      "\<forall>r\<in>set rows. dd_weekly_assignment_id r = next_id (map wa_id wa) \<and>
                (\<exists>s\<in>set p. dd_student1_id r = Some (s_id s)) \<and>
                (\<exists>s\<in>set p. dd_student2_id r = Some (s_id s))" by blast
    have slots: "\<forall>r\<in>set rows. dd_weekly_assignment_id r = next_id (map wa_id wa) \<and>
                (\<exists>s\<in>set ?ts. dd_student1_id r = Some (s_id s)) \<and>
                (\<exists>s\<in>set ?ts. dd_student2_id r = Some (s_id s))"
      using rows(3) psub by blast
    have "week_body term_id tabs studs week_num (current_date, g, wa, dd)
            = Some (current_date + 7, g', wa @ [row], dd @ rows)"
      using False sh p(1) rows(1) by (simp add: week_body_def row_def Let_def)
    then show ?thesis
      apply (intro exI [of _ g'] exI [of _ row] exI [of _ rows])
      using False rows(2) slots by (simp add: row_def)
  qed
qed

lemma filter_all_eq: "(\<forall>x\<in>set xs. P x) \<Longrightarrow> filter P xs = xs"
  by (induction xs) auto

lemma filter_none_eq: "(\<forall>x\<in>set xs. \<not> P x) \<Longrightarrow> filter P xs = []"
  by (induction xs) auto

lemma weeks_loop_inv:
  "\<exists>cd' g' news newdd.
     weeks_loop term_id tabs studs ws (cd, g, wa, dd) = Some (cd', g', wa @ news, dd @ newdd) \<and>
     map wa_week_number news = ws \<and>
     (\<forall>r\<in>set news. wa_term_id r = term_id \<and>
        wa_table_number r
          = t_table_number (tabs ! nat ((wa_week_number r - 1) mod int (length tabs))) \<and>
        wa_end_date r = wa_start_date r + 6 \<and>
        wa_id r \<notin> set (map wa_id wa) \<and>
        (\<exists>i<length ws. ws ! i = wa_week_number r \<and> wa_start_date r = cd + 7 * int i)) \<and>
     distinct (map wa_id news) \<and>
     (\<forall>x\<in>set newdd. dd_weekly_assignment_id x \<in> wa_id ` set news) \<and>
     (\<forall>r\<in>set news. week_duties_ok studs r (daily_filter_by_weekly_assignment_id newdd (wa_id r)))"
proof (induction ws arbitrary: cd g wa dd)
  case Nil
  show ?case
    by (rule exI [of _ cd], rule exI [of _ g], rule exI [of _ "[]"], rule exI [of _ "[]"]) simp
next
  case (Cons w rest)
  from week_body_step [of term_id tabs studs w cd g wa dd]
  obtain g1 row rows where
    body: "week_body term_id tabs studs w (cd, g, wa, dd) = Some (cd + 7, g1, wa @ [row], dd @ rows)"
    and row: "wa_id row = next_id (map wa_id wa)" "wa_term_id row = term_id"
       "wa_week_number row = w"
       "wa_table_number row = t_table_number (tabs ! nat ((w - 1) mod int (length tabs)))"
       "wa_start_date row = cd" "wa_end_date row = cd + 6"
    and shape: "if students_filter_by_table_number studs (wa_table_number row) = [] then rows = []
       else map (\<lambda>r. (dd_date r, dd_shift r)) rows
              = List.product (map (\<lambda>k. cd + int k) [0..<7]) [''AM'', ''PM'']"
    and slots: "\<forall>r\<in>set rows. dd_weekly_assignment_id r = wa_id row \<and>
        (\<exists>s\<in>set (students_filter_by_table_number studs (wa_table_number row)).
            dd_student1_id r = Some (s_id s)) \<and>
        (\<exists>s\<in>set (students_filter_by_table_number studs (wa_table_number row)).
            dd_student2_id r = Some (s_id s))"
    by blast
  from Cons.IH [of "cd + 7" g1 "wa @ [row]" "dd @ rows"]
  obtain cd' g' news newdd where
    loop: "weeks_loop term_id tabs studs rest (cd + 7, g1, wa @ [row], dd @ rows)
             = Some (cd', g', (wa @ [row]) @ news, (dd @ rows) @ newdd)"
    and nums: "map wa_week_number news = rest"
    and each: "\<forall>r\<in>set news. wa_term_id r = term_id \<and>
        wa_table_number r
          = t_table_number (tabs ! nat ((wa_week_number r - 1) mod int (length tabs))) \<and>
        wa_end_date r = wa_start_date r + 6 \<and>
        wa_id r \<notin> set (map wa_id (wa @ [row])) \<and>
        (\<exists>i<length rest. rest ! i = wa_week_number r \<and> wa_start_date r = cd + 7 + 7 * int i)"
    and dist: "distinct (map wa_id news)"
    and ids: "\<forall>x\<in>set newdd. dd_weekly_assignment_id x \<in> wa_id ` set news"
    and ok: "\<forall>r\<in>set news. week_duties_ok studs r (daily_filter_by_weekly_assignment_id newdd (wa_id r))"
    by blast
  let ?news = "row # news" and ?newdd = "rows @ newdd"
  have fresh: "wa_id row \<notin> set (map wa_id wa)"
    unfolding row(1) by (rule next_id_fresh)
  have other: "wa_id r \<noteq> wa_id row" if "r \<in> set news" for r
    using each that by auto
  have 1: "weeks_loop term_id tabs studs (w # rest) (cd, g, wa, dd)
             = Some (cd', g', wa @ ?news, dd @ ?newdd)"
    using body loop by simp
  have 2: "map wa_week_number ?news = w # rest"
    using nums row(3) by simp
  have 3: "wa_term_id r = term_id \<and>
        wa_table_number r
          = t_table_number (tabs ! nat ((wa_week_number r - 1) mod int (length tabs))) \<and>
        wa_end_date r = wa_start_date r + 6 \<and>
        wa_id r \<notin> set (map wa_id wa) \<and>
        (\<exists>i<length (w # rest). (w # rest) ! i = wa_week_number r \<and> wa_start_date r = cd + 7 * int i)"
    if "r \<in> set ?news" for r
  proof (cases "r = row")
    case True
    have "\<exists>i<length (w # rest). (w # rest) ! i = wa_week_number row \<and> wa_start_date row = cd + 7 * int i"
      by (rule exI [of _ 0]) (simp add: row)
    then show ?thesis using True row fresh by simp
  next
    case False
    then have r: "r \<in> set news" using that by simp
    with each obtain i where i: "i < length rest" "rest ! i = wa_week_number r"
      "wa_start_date r = cd + 7 + 7 * int i" by blast
    have "\<exists>j<length (w # rest). (w # rest) ! j = wa_week_number r \<and> wa_start_date r = cd + 7 * int j"
      by (rule exI [of _ "Suc i"]) (use i in simp)
    then show ?thesis using each r by simp
  qed
  have "wa_id row \<notin> wa_id ` set news"
    using other by force
  then have 4: "distinct (map wa_id ?news)"
    using dist by simp
  have 5: "\<forall>x\<in>set ?newdd. dd_weekly_assignment_id x \<in> wa_id ` set ?news"
    using ids slots by auto
  have 6: "week_duties_ok studs r (daily_filter_by_weekly_assignment_id ?newdd (wa_id r))"
    if "r \<in> set ?news" for r
  proof (cases "r = row")
    case True
    have a: "filter (\<lambda>x. dd_weekly_assignment_id x = wa_id row) rows = rows"
      using slots by (intro filter_all_eq) simp
    have b: "filter (\<lambda>x. dd_weekly_assignment_id x = wa_id row) newdd = []"
    proof (intro filter_none_eq ballI)
      fix x assume "x \<in> set newdd"
      with ids obtain r' where "r' \<in> set news" "dd_weekly_assignment_id x = wa_id r'" by auto
      then show "dd_weekly_assignment_id x \<noteq> wa_id row" using other by simp
    qed
    have "week_duties_ok studs row rows"
      unfolding week_duties_ok_def using shape slots row(5) by simp
    then show ?thesis
      using True a b by (simp add: daily_filter_by_weekly_assignment_id_def)
  next
    case False
    then have r: "r \<in> set news" using that by simp
    have "filter (\<lambda>x. dd_weekly_assignment_id x = wa_id r) rows = []"
      using slots other [OF r] by (intro filter_none_eq) simp
    then show ?thesis
      using ok r by (simp add: daily_filter_by_weekly_assignment_id_def)
  qed
  show ?case
    apply (rule exI [of _ cd'], rule exI [of _ g'], rule exI [of _ ?news], rule exI [of _ ?newdd])
    using 1 2 3 4 5 6 by blast
qed

lemma sort_key_Nil_iff: "sort_key f xs = [] \<longleftrightarrow> xs = []"
  using length_sort [of f xs] by (metis length_0_conv)

lemma create_schedule_result:
  assumes "find (\<lambda>t. tm_id t = term_id) (terms d) = Some term" and "tables d \<noteq> []"
  shows "\<exists>news newdd.
     create_duty_schedule_for_term term_id commit_ok g d
       = Some (if commit_ok
               then (True, Successfully_created (tm_weeks term),
                     d\<lparr>weekly_assignments :=
                          filter (\<lambda>w. wa_term_id w \<noteq> term_id) (weekly_assignments d) @ news,
                        daily_duties := daily_duties d @ newdd\<rparr>)
               else (False, Exception_text, d)) \<and>
     map wa_week_number news = [1..tm_weeks term] \<and>
     (\<forall>r\<in>set news. wa_term_id r = term_id \<and>
        wa_table_number r
          = t_table_number (sort_key t_table_number (tables d)
              ! nat ((wa_week_number r - 1) mod int (length (tables d)))) \<and>
        wa_end_date r = wa_start_date r + 6 \<and>
        wa_start_date r = tm_start_date term + 7 * (wa_week_number r - 1)) \<and>
     distinct (map wa_id news) \<and>
     (\<forall>x\<in>set newdd. dd_weekly_assignment_id x \<in> wa_id ` set news) \<and>
     (\<forall>r\<in>set news.
        week_duties_ok (students d) r (daily_filter_by_weekly_assignment_id newdd (wa_id r)))"
proof -
  let ?tabs = "sort_key t_table_number (tables d)"
  let ?wa = "filter (\<lambda>w. wa_term_id w \<noteq> term_id) (weekly_assignments d)"
  have tabs: "?tabs \<noteq> []" using assms(2) by (simp add: sort_key_Nil_iff)
  from weeks_loop_inv [of term_id ?tabs "students d" "[1..tm_weeks term]" "tm_start_date term" g ?wa
      "daily_duties d"]
  obtain cd' g' news newdd where
    loop: "weeks_loop term_id ?tabs (students d) [1..tm_weeks term]
             (tm_start_date term, g, ?wa, daily_duties d)
           = Some (cd', g', ?wa @ news, daily_duties d @ newdd)"
    and nums: "map wa_week_number news = [1..tm_weeks term]"
    and each: "\<forall>r\<in>set news. wa_term_id r = term_id \<and>
        wa_table_number r
          = t_table_number (?tabs ! nat ((wa_week_number r - 1) mod int (length ?tabs))) \<and>
        wa_end_date r = wa_start_date r + 6 \<and>
        wa_id r \<notin> set (map wa_id ?wa) \<and>
        (\<exists>i<length [1..tm_weeks term]. [1..tm_weeks term] ! i = wa_week_number r \<and>
            wa_start_date r = tm_start_date term + 7 * int i)"
    and dist: "distinct (map wa_id news)"
    and ids: "\<forall>x\<in>set newdd. dd_weekly_assignment_id x \<in> wa_id ` set news"
    and ok: "\<forall>r\<in>set news.
        week_duties_ok (students d) r (daily_filter_by_weekly_assignment_id newdd (wa_id r))"
    by blast
  have start: "wa_start_date r = tm_start_date term + 7 * (wa_week_number r - 1)"
    if "r \<in> set news" for r
  proof -
    from each that obtain i where i: "i < length [1..tm_weeks term]"
      "[1..tm_weeks term] ! i = wa_week_number r"
      "wa_start_date r = tm_start_date term + 7 * int i" by blast
    from i(1) have "1 + int i \<le> tm_weeks term" by simp
    then have "[1..tm_weeks term] ! i = 1 + int i" by (rule nth_upto)
    with i show ?thesis by simp
  qed
  have res: "create_duty_schedule_for_term term_id commit_ok g d
       = Some (if commit_ok
               then (True, Successfully_created (tm_weeks term),
                     d\<lparr>weekly_assignments := ?wa @ news, daily_duties := daily_duties d @ newdd\<rparr>)
               else (False, Exception_text, d))"
    using assms(1) tabs loop by (simp add: create_duty_schedule_for_term_def Let_def)
  show ?thesis
    apply (rule exI [of _ news], rule exI [of _ newdd])
    using res nums each start dist ids ok by simp
qed

section \<open>The claims about the generated schedule\<close>

lemma weekly_filter_generated:
  assumes "\<forall>r\<in>set news. wa_term_id r = term_id"
  shows "weekly_filter_by_term_id (filter (\<lambda>w. wa_term_id w \<noteq> term_id) old @ news) term_id = news"
proof -
  have "filter (\<lambda>w. wa_term_id w = term_id) (filter (\<lambda>w. wa_term_id w \<noteq> term_id) old) = []"
    by (intro filter_none_eq) simp
  moreover have "filter (\<lambda>w. wa_term_id w = term_id) news = news"
    using assms by (intro filter_all_eq) simp
  ultimately show ?thesis by (simp add: weekly_filter_by_term_id_def)
qed

text \<open>
  Claim C3. A term of \<open>W\<close> weeks generated against at least one table gets exactly the
  weekly assignments of the weeks \<open>1..W\<close>, one each and in this order, and the week \<open>w\<close> is
  given the table at index \<open>(w - 1) mod T\<close> of the \<open>T\<close> tables ordered by table number.
\<close>

theorem generation_round_robin:
  assumes "find (\<lambda>t. tm_id t = term_id) (terms d) = Some term" and "tables d \<noteq> []"
  shows "\<exists>d'. create_duty_schedule_for_term term_id True g d
                 = Some (True, Successfully_created (tm_weeks term), d') \<and>
           map (\<lambda>r. (wa_week_number r, wa_table_number r))
               (weekly_filter_by_term_id (weekly_assignments d') term_id)
             = map (\<lambda>w. (w, t_table_number (sort_key t_table_number (tables d)
                               ! nat ((w - 1) mod int (length (tables d))))))
                   [1..tm_weeks term]"
proof -
  from create_schedule_result [OF assms, of True g]
  obtain news newdd where
    res: "create_duty_schedule_for_term term_id True g d
       = Some (True, Successfully_created (tm_weeks term),
               d\<lparr>weekly_assignments :=
                    filter (\<lambda>w. wa_term_id w \<noteq> term_id) (weekly_assignments d) @ news,
                  daily_duties := daily_duties d @ newdd\<rparr>)"
    and nums: "map wa_week_number news = [1..tm_weeks term]"
    and each: "\<forall>r\<in>set news. wa_term_id r = term_id \<and>
        wa_table_number r
          = t_table_number (sort_key t_table_number (tables d)
              ! nat ((wa_week_number r - 1) mod int (length (tables d)))) \<and>
        wa_end_date r = wa_start_date r + 6 \<and>
        wa_start_date r = tm_start_date term + 7 * (wa_week_number r - 1)"
    by auto
  have f: "weekly_filter_by_term_id
             (filter (\<lambda>w. wa_term_id w \<noteq> term_id) (weekly_assignments d) @ news) term_id = news"
    using each by (intro weekly_filter_generated) simp
  have "map (\<lambda>r. (wa_week_number r, wa_table_number r)) news
      = map (\<lambda>r. (wa_week_number r, t_table_number (sort_key t_table_number (tables d)
              ! nat ((wa_week_number r - 1) mod int (length (tables d)))))) news"
    using each by simp
  also have "\<dots> = map (\<lambda>w. (w, t_table_number (sort_key t_table_number (tables d)
                               ! nat ((w - 1) mod int (length (tables d))))))
                     (map wa_week_number news)"
    by (simp add: comp_def)
  finally show ?thesis using res f nums by simp
qed

theorem generation_round_robin_witness:
  "\<exists>d'. create_duty_schedule_for_term 1 True [] example_db = Some (True, Successfully_created 2, d') \<and>
        map (\<lambda>r. (wa_week_number r, wa_table_number r))
            (weekly_filter_by_term_id (weekly_assignments d') 1) = [(1, 1), (2, 2)]"
proof -
  have h1: "find (\<lambda>t. tm_id t = 1) (terms example_db) = Some term1"
    by (simp add: example_db_def term1_def)
  have h2: "tables example_db \<noteq> []" by (simp add: example_db_def)
  have s: "sort_key t_table_number (tables example_db) = [table1, table2]"
    by (simp add: example_db_def table1_def table2_def)
  have u: "[1..2::int] = [1, 2]" by (simp add: upto_rec1)
  from generation_round_robin [OF h1 h2, of "[]"] show ?thesis
    unfolding s by (simp add: term1_def example_db_def u table1_def table2_def)
qed





section \<open>The claims about regenerating one week\<close>

text \<open>
  Claim C9. Regenerating one week always returns, and whatever it answers, it leaves the
  students, tables, terms and every weekly assignment as they were, and for every other
  weekly assignment, of any term, the DailyDuty rows of that assignment are the same rows
  in the same order as before.
\<close>

theorem regenerate_week_frame:
  "\<exists>resp d'. regenerate_week weekly_assignment_id commit_ok g d = Some (resp, d') \<and>
      students d' = students d \<and> tables d' = tables d \<and> terms d' = terms d \<and>
      weekly_assignments d' = weekly_assignments d \<and>
      (\<forall>w. w \<noteq> weekly_assignment_id \<longrightarrow>
           daily_filter_by_weekly_assignment_id (daily_duties d') w
             = daily_filter_by_weekly_assignment_id (daily_duties d) w)"
proof (cases "find (\<lambda>w. wa_id w = weekly_assignment_id) (weekly_assignments d)")
  case None
  then show ?thesis
    by (intro exI [of _ "(False, Weekly_assignment_not_found, 404)"] exI [of _ d])
      (simp add: regenerate_week_def)
next
  case (Some weekly_assignment)
  then have wid: "wa_id weekly_assignment = weekly_assignment_id"
    by (auto simp: find_Some_iff)
  let ?ts = "students_filter_by_table_number (students d) (wa_table_number weekly_assignment)"
  let ?dd = "filter (\<lambda>x. dd_weekly_assignment_id x \<noteq> weekly_assignment_id) (daily_duties d)"
  show ?thesis
  proof (cases "?ts = []")
    case True
    then show ?thesis using Some
      by (intro exI [of _ "(False, No_students_in_this_table, 400)"] exI [of _ d])
        (simp add: regenerate_week_def)
  next
    case False
    obtain pool0 g' where sh: "shuffle ?ts g = (pool0, g')" by (cases "shuffle ?ts g")
    from extend_pool_returns [OF False, of pool0] obtain p where
      p: "extend_pool ?ts pool0 = Some p" "28 \<le> length p" by blast
    have pne: "p \<noteq> []" using p(2) by auto
    from week_daily_duties_rows [OF pne, of weekly_assignment_id "wa_start_date weekly_assignment" ?dd]
    obtain rows where rows:
      "week_daily_duties weekly_assignment_id (wa_start_date weekly_assignment) p ?dd = ?dd @ rows"
      "\<forall>r\<in>set rows. dd_weekly_assignment_id r = weekly_assignment_id" by blast
    have res: "regenerate_week weekly_assignment_id commit_ok g d
        = Some (if commit_ok then ((True, Week_regenerated_successfully, 200),
                                   d\<lparr>daily_duties := ?dd @ rows\<rparr>)
                else ((False, Exception_text, 500), d))"
      using Some False sh p(1) rows(1) wid by (simp add: regenerate_week_def Let_def)
    have keep: "daily_filter_by_weekly_assignment_id (?dd @ rows) w
             = daily_filter_by_weekly_assignment_id (daily_duties d) w"
      if "w \<noteq> weekly_assignment_id" for w
    proof -
      have "filter (\<lambda>x. dd_weekly_assignment_id x = w) rows = []"
        using rows(2) that by (intro filter_none_eq) simp
      moreover have "filter (\<lambda>x. dd_weekly_assignment_id x = w) ?dd
          = filter (\<lambda>x. dd_weekly_assignment_id x = w) (daily_duties d)"
        using that by (auto intro: filter_cong)
      ultimately show ?thesis by (simp add: daily_filter_by_weekly_assignment_id_def)
    qed
    show ?thesis
    proof (cases commit_ok)
      case True
      then show ?thesis using res keep
        by (intro exI [of _ "(True, Week_regenerated_successfully, 200)"]
            exI [of _ "d\<lparr>daily_duties := ?dd @ rows\<rparr>"]) simp
    next
      case False
      then show ?thesis using res
        by (intro exI [of _ "(False, Exception_text, 500)"] exI [of _ d]) simp
    qed
  qed
qed

theorem regenerate_week_frame_witness:
  "\<exists>resp d'. regenerate_week 1 True [] scheduled_db = Some (resp, d') \<and>
      weekly_assignments d' = [week1, week2, week3] \<and>
      daily_filter_by_weekly_assignment_id (daily_duties d') 2 = [duty2] \<and>
      daily_filter_by_weekly_assignment_id (daily_duties d') 3 = [duty3]"
proof -
  have f: "daily_filter_by_weekly_assignment_id (daily_duties scheduled_db) 2 = [duty2]"
    "daily_filter_by_weekly_assignment_id (daily_duties scheduled_db) 3 = [duty3]"
    "weekly_assignments scheduled_db = [week1, week2, week3]"
    by (simp_all add: scheduled_db_def daily_filter_by_weekly_assignment_id_def
        duty1_def duty2_def duty3_def)
  from regenerate_week_frame [of 1 True "[]" scheduled_db]
  obtain resp d' where r: "regenerate_week 1 True [] scheduled_db = Some (resp, d')"
    "weekly_assignments d' = weekly_assignments scheduled_db"
    "\<forall>w. w \<noteq> 1 \<longrightarrow> daily_filter_by_weekly_assignment_id (daily_duties d') w
             = daily_filter_by_weekly_assignment_id (daily_duties scheduled_db) w" by blast
  from r(3) have "daily_filter_by_weekly_assignment_id (daily_duties d') 2
             = daily_filter_by_weekly_assignment_id (daily_duties scheduled_db) 2"
    "daily_filter_by_weekly_assignment_id (daily_duties d') 3
             = daily_filter_by_weekly_assignment_id (daily_duties scheduled_db) 3" by simp_all
  with r(1) r(2) f show ?thesis
    by (intro exI [of _ resp] exI [of _ d']) simp
qed

text \<open>
  Claim C10. When the table of the weekly assignment has no student, regenerating the week
  answers with a failure (status 400) and returns the database it was given: no DailyDuty
  row is deleted, since the check stands before the delete.
\<close>

theorem regenerate_week_empty_table:
  assumes "find (\<lambda>w. wa_id w = weekly_assignment_id) (weekly_assignments d) = Some weekly_assignment"
    and "students_filter_by_table_number (students d) (wa_table_number weekly_assignment) = []"
  shows "regenerate_week weekly_assignment_id commit_ok g d
           = Some ((False, No_students_in_this_table, 400), d)"
  using assms by (simp add: regenerate_week_def)

theorem regenerate_week_empty_table_witness:
  "find (\<lambda>w. wa_id w = 3) (weekly_assignments scheduled_db) = Some week3 \<and>
   students_filter_by_table_number (students scheduled_db) (wa_table_number week3) = [] \<and>
   regenerate_week 3 True [] scheduled_db = Some ((False, No_students_in_this_table, 400), scheduled_db) \<and>
   daily_filter_by_weekly_assignment_id (daily_duties scheduled_db) 3 = [duty3]"
proof -
  have h1: "find (\<lambda>w. wa_id w = 3) (weekly_assignments scheduled_db) = Some week3"
    by (simp add: scheduled_db_def week1_def week2_def week3_def)
  have h2: "students_filter_by_table_number (students scheduled_db) (wa_table_number week3) = []"
    by (simp add: scheduled_db_def example_db_def week3_def students_filter_by_table_number_def
        alice_def bob_def)
  have f: "daily_filter_by_weekly_assignment_id (daily_duties scheduled_db) 3 = [duty3]"
    by (simp add: scheduled_db_def daily_filter_by_weekly_assignment_id_def
        duty1_def duty2_def duty3_def)
  from regenerate_week_empty_table [OF h1 h2, of True "[]"] show ?thesis
    using h1 h2 f by simp
qed

section \<open>Generating the same term twice\<close>

lemma add_daily_duty_eq:
  "add_daily_duty wid pool duty_date shift (i, dd) =
     (i + 2, dd @ [\<lparr>dd_id = next_id (map dd_id dd), dd_weekly_assignment_id = wid,
        dd_date = duty_date, dd_shift = shift,
        dd_student1_id = Some (s_id (pool ! (i mod length pool))),
        dd_student2_id = Some (s_id (pool ! ((i + 1) mod length pool)))\<rparr>])"
  by (simp add: add_daily_duty_def Let_def)

lemma extend_pool_alice: "extend_pool [alice] [alice] = Some (replicate 28 alice)"
  by (simp add: extend_pool.simps eval_nat_numeral)

lemma small_db_run:
  assumes "weekly_assignments d = [] \<or> weekly_assignments d = [week1]"
  shows "create_duty_schedule_for_term 1 True []
           (small_db\<lparr>weekly_assignments := weekly_assignments d, daily_duties := dd\<rparr>)
     = Some (True, Successfully_created 1,
             small_db\<lparr>weekly_assignments := [week1],
                       daily_duties := week_daily_duties 1 738886 (replicate 28 alice) dd\<rparr>)"
proof -
  have a: "s_table_number alice = Some 1" by (simp add: alice_def)
  show ?thesis
    using assms
    by (auto simp add: create_duty_schedule_for_term_def small_db_def week_body_def
      students_filter_by_table_number_def shuffle_def extend_pool_alice next_id_def upto_rec1
      Let_def table1_def week1_def a)
qed

lemma first_week_ids:
  "map dd_id (week_daily_duties 1 738886 (replicate 28 alice) [])
     = [1, 2, 3, 4, 5, 6, 7, 8, 9, 10, 11, 12, 13, 14]"
  by (simp add: week_daily_duties_def add_daily_duty_eq upt_rec next_id_def)

lemma second_week_ids:
  assumes "map dd_id dd = [1, 2, 3, 4, 5, 6, 7, 8, 9, 10, 11, 12, 13, 14]"
  shows "map dd_id (week_daily_duties 1 738886 (replicate 28 alice) dd)
     = [1, 2, 3, 4, 5, 6, 7, 8, 9, 10, 11, 12, 13, 14,
        15, 16, 17, 18, 19, 20, 21, 22, 23, 24, 25, 26, 27, 28]"
  using assms by (simp add: week_daily_duties_def add_daily_duty_eq upt_rec next_id_def)

text \<open>
  Claim C2 says that a second generation of a term leaves no weekly or daily row of the
  first. The code does not do so. On the database \<open>small_db\<close> (one term of one week, one
  table, one student) the first run creates the weekly assignment 1 and the DailyDuty rows
  1 to 14. The second run deletes the weekly assignment with a bulk delete, which removes
  no DailyDuty row, and creates the weekly assignment again, under the same key 1: the 14
  rows of the first run are still in the table, followed by the rows 15 to 28, and the new
  weekly assignment owns all 28.
\<close>

theorem second_generation_keeps_first_duties:
  "\<exists>d1 d2 rows.
     create_duty_schedule_for_term 1 True [] small_db = Some (True, Successfully_created 1, d1) \<and>
     create_duty_schedule_for_term 1 True [] d1 = Some (True, Successfully_created 1, d2) \<and>
     weekly_assignments d1 = [week1] \<and>
     map dd_id (daily_duties d1) = [1, 2, 3, 4, 5, 6, 7, 8, 9, 10, 11, 12, 13, 14] \<and>
     weekly_assignments d2 = [week1] \<and>
     daily_duties d2 = daily_duties d1 @ rows \<and>
     map dd_id (daily_duties d2)
       = [1, 2, 3, 4, 5, 6, 7, 8, 9, 10, 11, 12, 13, 14,
          15, 16, 17, 18, 19, 20, 21, 22, 23, 24, 25, 26, 27, 28] \<and>
     length (daily_filter_by_weekly_assignment_id (daily_duties d2) (wa_id week1)) = 28"
proof -
  let ?pool = "replicate 28 alice"
  let ?dd1 = "week_daily_duties 1 738886 ?pool []"
  let ?d1 = "small_db\<lparr>weekly_assignments := [week1], daily_duties := ?dd1\<rparr>"
  let ?dd2 = "week_daily_duties 1 738886 ?pool ?dd1"
  let ?d2 = "small_db\<lparr>weekly_assignments := [week1], daily_duties := ?dd2\<rparr>"
  have e: "small_db = small_db\<lparr>weekly_assignments := weekly_assignments small_db,
                               daily_duties := []\<rparr>"
    by (simp add: small_db_def)
  have "weekly_assignments small_db = [] \<or> weekly_assignments small_db = [week1]"
    by (simp add: small_db_def)
  from small_db_run [OF this, of "[]"]
  have r1: "create_duty_schedule_for_term 1 True [] small_db
              = Some (True, Successfully_created 1, ?d1)"
    using e by simp
  have "weekly_assignments ?d1 = [] \<or> weekly_assignments ?d1 = [week1]" by simp
  from small_db_run [OF this, of ?dd1]
  have r2: "create_duty_schedule_for_term 1 True [] ?d1
              = Some (True, Successfully_created 1, ?d2)"
    by simp
  have pne: "?pool \<noteq> []" by simp
  from week_daily_duties_rows [OF pne, of 1 738886 ?dd1]
  obtain rows where rows: "?dd2 = ?dd1 @ rows"
    "\<forall>r\<in>set rows. dd_weekly_assignment_id r = 1" by blast
  from week_daily_duties_rows [OF pne, of 1 738886 "[]"]
  obtain rows1 where rows1: "?dd1 = [] @ rows1"
    "\<forall>r\<in>set rows1. dd_weekly_assignment_id r = 1" by blast
  have i1: "map dd_id ?dd1 = [1, 2, 3, 4, 5, 6, 7, 8, 9, 10, 11, 12, 13, 14]"
    by (rule first_week_ids)
  have i2: "map dd_id ?dd2 = [1, 2, 3, 4, 5, 6, 7, 8, 9, 10, 11, 12, 13, 14,
          15, 16, 17, 18, 19, 20, 21, 22, 23, 24, 25, 26, 27, 28]"
    by (rule second_week_ids [OF i1])
  have "filter (\<lambda>x. dd_weekly_assignment_id x = 1) ?dd2 = ?dd2"
    unfolding rows(1) using rows(2) rows1 by (intro filter_all_eq) auto
  then have "length (daily_filter_by_weekly_assignment_id ?dd2 (wa_id week1)) = length (map dd_id ?dd2)"
    by (simp add: daily_filter_by_weekly_assignment_id_def week1_def)
  also have "\<dots> = 28" unfolding i2 by simp
  finally have n: "length (daily_filter_by_weekly_assignment_id ?dd2 (wa_id week1)) = 28" .
  show ?thesis
    apply (rule exI [of _ ?d1], rule exI [of _ ?d2], rule exI [of _ rows])
    using r1 r2 rows(1) i1 i2 n by simp
qed

section \<open>The claims about the distributor\<close>

lemma uniform_zero: "uniform 0 2 [] = (0, [])"
  by (simp add: uniform_def random_def next_draw_def)

text \<open>
  Claim C6. Without any table the distributor reports a failure and returns the database
  it was given. With a table and no student without a table it reports success and returns
  the database it was given. (The test for the tables comes first: with no table and no
  unassigned student the answer is the failure.)
\<close>

theorem distribute_no_tables_or_no_students:
  "(tables d = [] \<longrightarrow>
      distribute_students_to_tables_smart commit_ok g d
        = (False, (No_tables_available_create_first, ''error''), d)) \<and>
   (tables d \<noteq> [] \<and> (\<forall>s\<in>set (students d). s_table_number s \<noteq> None) \<longrightarrow>
      distribute_students_to_tables_smart commit_ok g d
        = (True, (No_unassigned_students, ''info''), d))"
proof (intro conjI impI)
  assume "tables d = []"
  then show "distribute_students_to_tables_smart commit_ok g d
        = (False, (No_tables_available_create_first, ''error''), d)"
    by (simp add: distribute_students_to_tables_smart_def)
next
  assume a: "tables d \<noteq> [] \<and> (\<forall>s\<in>set (students d). s_table_number s \<noteq> None)"
  then have "filter (\<lambda>s. s_table_number s = None) (students d) = []"
    by (intro filter_none_eq) simp
  moreover have "sort_key t_table_number (tables d) \<noteq> []"
    using a by (simp add: sort_key_Nil_iff)
  ultimately show "distribute_students_to_tables_smart commit_ok g d
        = (True, (No_unassigned_students, ''info''), d)"
    by (simp add: distribute_students_to_tables_smart_def)
qed

theorem distribute_no_tables_or_no_students_witness:
  "tables (example_db\<lparr>tables := [], students := [carol]\<rparr>) = [] \<and>
   distribute_students_to_tables_smart True [] (example_db\<lparr>tables := [], students := [carol]\<rparr>)
     = (False, (No_tables_available_create_first, ''error''),
        example_db\<lparr>tables := [], students := [carol]\<rparr>) \<and>
   tables example_db = [table2, table1] \<and>
   map s_table_number (students example_db) = [Some 1, Some 2] \<and>
   distribute_students_to_tables_smart True [] example_db
     = (True, (No_unassigned_students, ''info''), example_db)"
proof -
  have t: "tables example_db = [table2, table1]"
    "map s_table_number (students example_db) = [Some 1, Some 2]"
    by (simp_all add: example_db_def alice_def bob_def)
  have h: "tables example_db \<noteq> [] \<and> (\<forall>s\<in>set (students example_db). s_table_number s \<noteq> None)"
    by (simp add: example_db_def alice_def bob_def)
  from distribute_no_tables_or_no_students [of "example_db\<lparr>tables := [], students := [carol]\<rparr>" True "[]"]
    distribute_no_tables_or_no_students [of example_db True "[]"] h t
  show ?thesis by simp
qed

text \<open>
  Claim C1 says that after a distribution the \<open>current_count\<close> of every table is the number
  of students at the table, also for a table that had students before. The code counts
  only the students it has just placed. On \<open>upload_db\<close> (Alice at table 1, Carol imported
  without a table) the run puts Carol at table 1 and writes the count 1, while two
  students sit at the table.
\<close>

theorem distribute_count_ignores_earlier_members:
  "distribute_students_to_tables_smart True [] upload_db
     = (True, (Successfully_distributed 1, ''success''),
        upload_db\<lparr>students := [alice, carol\<lparr>s_table_number := Some 1\<rparr>],
                  tables := [table1\<lparr>current_count := 1\<rparr>]\<rparr>) \<and>
   length (students_filter_by_table_number [alice, carol\<lparr>s_table_number := Some 1\<rparr>] 1) = 2"
proof -
  have a: "s_table_number alice = Some 1" "s_id alice = 1" by (simp_all add: alice_def)
  have c: "s_table_number carol = None" "s_id carol = 3" "grade carol = Some 9"
    by (simp_all add: carol_def)
  have t: "t_table_number table1 = 1" by (simp add: table1_def)
  show ?thesis
    by (simp add: distribute_students_to_tables_smart_def upload_db_def a c t shuffle_def
        grade_key_def dict_getitem_default_def place_student_def uniform_zero collisions_def
        fallback_loop_def write_table_numbers_def set_table_number_def
        students_filter_by_table_number_def Let_def)
qed

section \<open>The loops of the distributor\<close>

lemma listed_Nil [simp]: "listed [] = {}"
  by (simp add: listed_def)

lemma listed_Cons [simp]: "listed ((k, v) # d) = set v \<union> listed d"
  by (simp add: listed_def)

lemma dict_append_keys: "k \<in> fst ` set d \<Longrightarrow> map fst (dict_append d k x) = map fst d"
proof (induction d)
  case Nil
  then show ?case by simp
next
  case (Cons e d)
  obtain k' v where e: "e = (k', v)" by (cases e)
  show ?case
  proof (cases "k' = k")
    case True
    then show ?thesis by (simp add: e)
  next
    case False
    then have "k \<in> fst ` set d" using Cons.prems by (auto simp: e)
    from Cons.IH [OF this] show ?thesis using False by (simp add: e)
  qed
qed

lemma listed_dict_append: "listed (dict_append d k x) = insert x (listed d)"
  by (induction d) (auto split: if_splits)

lemma dict_setitem_keys: "fst ` set (dict_setitem d k v) = insert k (fst ` set d)"
proof (induction d)
  case Nil
  then show ?case by simp
next
  case (Cons e d)
  obtain k' v' where e: "e = (k', v')" by (cases e)
  show ?case
  proof (cases "k' = k")
    case True
    then show ?thesis by (simp add: e)
  next
    case False
    then show ?thesis using Cons.IH by (simp add: e insert_commute)
  qed
qed

lemma table_assignments_keys:
  "fst ` set (fold (\<lambda>table ta. dict_setitem ta (t_table_number table) []) tabs ta)
     = fst ` set ta \<union> t_table_number ` set tabs"
  by (induction tabs arbitrary: ta) (auto simp: dict_setitem_keys)

lemma best_table_loop_key:
  "best_table_loop student ta best g = (Some (b, sc), g') \<Longrightarrow>
   b \<in> fst ` set ta \<or> best = Some (b, sc)"
proof (induction ta arbitrary: best g)
  case Nil
  then show ?case by simp
next
  case (Cons e ta)
  obtain table_num current_students where e: "e = (table_num, current_students)" by (cases e)
  obtain jitter g1 where u: "uniform 0 2 g = (jitter, g1)" by (cases "uniform 0 2 g")
  let ?score = "real (collisions student current_students) + jitter"
  let ?best = "if (case best of None \<Rightarrow> True | Some (best_table, best_score) \<Rightarrow> ?score < best_score)
               then Some (table_num, ?score) else best"
  from Cons.prems have "best_table_loop student ta ?best g1 = (Some (b, sc), g')"
    by (simp add: e u Let_def)
  from Cons.IH [OF this] show ?case
    by (auto simp: e split: if_splits)
qed

lemma place_student_inv:
  assumes "dist_inv K st"
  shows "dist_inv K (place_student student st)"
proof -
  obtain ta assigned g where st: "st = (ta, assigned, g)" by (cases st)
  obtain best g1 where b: "best_table_loop student ta None g = (best, g1)"
    by (cases "best_table_loop student ta None g")
  show ?thesis
  proof (cases best)
    case None
    then show ?thesis using assms by (simp add: place_student_def st b dist_inv_def)
  next
    case (Some p)
    obtain bt bs where p: "p = (bt, bs)" by (cases p)
    from best_table_loop_key [of student ta None g bt bs g1] b Some p
    have k: "bt \<in> fst ` set ta" by simp
    show ?thesis
      using assms k
      by (auto simp: place_student_def st b Some p dist_inv_def dict_append_keys
          listed_dict_append)
  qed
qed

lemma students_loop_inv:
  "dist_inv K st \<Longrightarrow> dist_inv K (students_loop l st)"
proof (induction l arbitrary: st)
  case Nil
  then show ?case by simp
next
  case (Cons student l)
  obtain ta assigned g where st: "st = (ta, assigned, g)" by (cases st)
  show ?case
  proof (cases "ta = []")
    case True
    then show ?thesis using Cons.prems by (simp add: st)
  next
    case False
    then show ?thesis
      using Cons.IH [OF place_student_inv [OF Cons.prems, of student]] by (simp add: st)
  qed
qed

lemma grades_loop_inv:
  "dist_inv K st \<Longrightarrow> dist_inv K (grades_loop by_grade ks st)"
proof (induction ks arbitrary: st)
  case Nil
  then show ?case by simp
next
  case (Cons k ks)
  obtain ta assigned g where st: "st = (ta, assigned, g)" by (cases st)
  obtain l g1 where sh: "shuffle (filter (\<lambda>s. s_id s \<notin> assigned)
      (dict_getitem_default by_grade k)) g = (l, g1)"
    by (cases "shuffle (filter (\<lambda>s. s_id s \<notin> assigned) (dict_getitem_default by_grade k)) g")
  have "dist_inv K (ta, assigned, g1)"
    using Cons.prems by (simp add: st dist_inv_def)
  then have "dist_inv K (students_loop l (ta, assigned, g1))"
    by (rule students_loop_inv)
  from Cons.IH [OF this] show ?case
    by (simp add: st sh)
qed

lemma fallback_fold:
  assumes "K \<noteq> []" and "map fst ta = K"
  shows "\<exists>ta'. fold (\<lambda>(idx, student) (table_assignments, assigned_students).
                 let table_num = K ! (idx mod length K)
                 in (dict_append table_assignments table_num student,
                     insert (s_id student) assigned_students))
           (enumerate n remaining) (ta, assigned)
         = (ta', assigned \<union> s_id ` set remaining) \<and>
         map fst ta' = K \<and> listed ta' = listed ta \<union> set remaining"
  using assms(2)
proof (induction remaining arbitrary: n ta assigned)
  case Nil
  then show ?case by simp
next
  case (Cons student remaining)
  let ?k = "K ! (n mod length K)"
  have "?k \<in> set K" using assms(1) by simp
  then have k: "?k \<in> fst ` set ta" using Cons.prems by (metis set_map)
  have keys: "map fst (dict_append ta ?k student) = K"
    using dict_append_keys [OF k] Cons.prems by simp
  from Cons.IH [OF keys, of "Suc n" "insert (s_id student) assigned"]
  obtain ta' where
    "fold (\<lambda>(idx, student) (table_assignments, assigned_students).
                 let table_num = K ! (idx mod length K)
                 in (dict_append table_assignments table_num student,
                     insert (s_id student) assigned_students))
           (enumerate (Suc n) remaining) (dict_append ta ?k student, insert (s_id student) assigned)
         = (ta', insert (s_id student) assigned \<union> s_id ` set remaining)"
    "map fst ta' = K" "listed ta' = listed (dict_append ta ?k student) \<union> set remaining"
    by blast
  then show ?case
    by (intro exI [of _ ta']) (simp add: listed_dict_append Let_def)
qed

lemma fallback_loop_keys:
  assumes "ta \<noteq> []"
  shows "\<exists>ta'. fallback_loop remaining (ta, assigned) = (ta', assigned \<union> s_id ` set remaining) \<and>
           map fst ta' = map fst ta \<and> listed ta' = listed ta \<union> set remaining"
proof -
  have "map fst ta \<noteq> []" using assms by simp
  from fallback_fold [OF this refl, of 0 remaining assigned] show ?thesis
    by (simp add: fallback_loop_def Let_def)
qed

lemma fold_map_rows: "fold (\<lambda>x. map (f x)) xs ys = map (fold f xs) ys"
  by (induction xs arbitrary: ys) simp_all

lemma write_student_spec:
  "s_id (write_student k l r) = s_id r \<and>
   (s_id r \<in> s_id ` set l \<longrightarrow> s_table_number (write_student k l r) = Some k) \<and>
   (s_id r \<notin> s_id ` set l \<longrightarrow> write_student k l r = r)"
proof (induction l arbitrary: r)
  case Nil
  then show ?case by (simp add: write_student_def)
next
  case (Cons s l)
  let ?r1 = "if s_id r = s_id s then r\<lparr>s_table_number := Some k\<rparr> else r"
  have step: "write_student k (s # l) r = write_student k l ?r1"
    by (simp add: write_student_def)
  have id1: "s_id ?r1 = s_id r" by simp
  from Cons.IH [of ?r1] have
    a: "s_id (write_student k l ?r1) = s_id r" and
    b: "s_id r \<in> s_id ` set l \<Longrightarrow> s_table_number (write_student k l ?r1) = Some k" and
    c: "s_id r \<notin> s_id ` set l \<Longrightarrow> write_student k l ?r1 = ?r1"
    unfolding id1 by simp_all
  show ?case
  proof (cases "s_id r \<in> s_id ` set l")
    case True
    then show ?thesis unfolding step using a b by simp
  next
    case False
    then show ?thesis unfolding step using a c [OF False] by (cases "s_id r = s_id s") simp_all
  qed
qed

lemma inner_write_map:
  "fold (\<lambda>student studs. set_table_number (s_id student) (Some k) studs) l studs
     = map (write_student k l) studs"
  unfolding set_table_number_def write_student_def by (rule fold_map_rows)

lemma write_table_numbers_map: "write_table_numbers ta studs = map (write_row ta) studs"
proof (induction ta arbitrary: studs)
  case Nil
  then show ?case by (simp add: write_table_numbers_def write_row_def)
next
  case (Cons e ta)
  obtain k l where e: "e = (k, l)" by (cases e)
  have "write_table_numbers (e # ta) studs
      = write_table_numbers ta
          (fold (\<lambda>student studs. set_table_number (s_id student) (Some k) studs) l studs)"
    by (simp add: write_table_numbers_def e)
  also have "\<dots> = write_table_numbers ta (map (write_student k l) studs)"
    by (simp only: inner_write_map)
  also have "\<dots> = map (write_row ta) (map (write_student k l) studs)"
    by (rule Cons.IH)
  also have "\<dots> = map (write_row (e # ta)) studs"
    by (simp add: write_row_def e)
  finally show ?case .
qed

lemma write_row_spec:
  "s_id (write_row ta r) = s_id r \<and>
   (s_id r \<in> s_id ` listed ta \<longrightarrow> s_table_number (write_row ta r) \<in> Some ` fst ` set ta) \<and>
   (s_id r \<notin> s_id ` listed ta \<longrightarrow> write_row ta r = r)"
proof (induction ta arbitrary: r)
  case Nil
  then show ?case by (simp add: write_row_def)
next
  case (Cons e ta)
  obtain k l where e: "e = (k, l)" by (cases e)
  define r1 where "r1 = write_student k l r"
  have w: "write_row (e # ta) r = write_row ta r1"
    by (simp add: write_row_def e r1_def)
  from write_student_spec [of k l r] have
    i1: "s_id r1 = s_id r" and
    i2: "s_id r \<in> s_id ` set l \<Longrightarrow> s_table_number r1 = Some k" and
    i3: "s_id r \<notin> s_id ` set l \<Longrightarrow> r1 = r"
    unfolding r1_def by simp_all
  from Cons.IH [of r1] have
    h1: "s_id (write_row ta r1) = s_id r" and
    h2: "s_id r \<in> s_id ` listed ta \<Longrightarrow> s_table_number (write_row ta r1) \<in> Some ` fst ` set ta" and
    h3: "s_id r \<notin> s_id ` listed ta \<Longrightarrow> write_row ta r1 = r1"
    unfolding i1 by simp_all
  have mem: "s_id r \<in> s_id ` listed (e # ta) \<longleftrightarrow>
      s_id r \<in> s_id ` set l \<or> s_id r \<in> s_id ` listed ta"
    by (auto simp: e)
  have keys: "Some ` fst ` set (e # ta) = insert (Some k) (Some ` fst ` set ta)"
    by (simp add: e)
  show ?case
  proof (cases "s_id r \<in> s_id ` listed ta")
    case True
    then show ?thesis unfolding w mem keys using h1 h2 by simp
  next
    case False
    show ?thesis
    proof (cases "s_id r \<in> s_id ` set l")
      case True
      then show ?thesis unfolding w mem keys using False h1 h3 i2 by simp
    next
      case notin: False
      then show ?thesis unfolding w mem keys using False h1 h3 i3 by simp
    qed
  qed
qed

lemma distribute_run:
  assumes "tables d \<noteq> []" and "filter (\<lambda>s. s_table_number s = None) (students d) \<noteq> []"
  shows "\<exists>ta n db_tables.
     distribute_students_to_tables_smart commit_ok g d
       = (if commit_ok
          then (True, (Successfully_distributed n, ''success''),
                d\<lparr>students := write_table_numbers ta (students d), tables := db_tables\<rparr>)
          else (False, (Error_during_distribution, ''error''), d)) \<and>
     fst ` set ta = t_table_number ` set (tables d) \<and>
     s_id ` set (filter (\<lambda>s. s_table_number s = None) (students d)) \<subseteq> s_id ` listed ta"
proof -
  let ?studs0 = "filter (\<lambda>s. s_table_number s = None) (students d)"
  let ?tabs = "sort_key t_table_number (tables d)"
  have tabs: "?tabs \<noteq> []" using assms(1) by (simp add: sort_key_Nil_iff)
  obtain studs g1 where sh1: "shuffle ?studs0 g = (studs, g1)" by (cases "shuffle ?studs0 g")
  have studs: "set studs = set ?studs0" using shuffle_set [of ?studs0 g] sh1 by simp
  define ta0 :: "(int \<times> Student list) list" where "ta0 = fold (\<lambda>table ta. dict_setitem ta (t_table_number table) []) ?tabs []"
  define by_grade where
    "by_grade = fold (\<lambda>student bg. dict_append bg (grade_key student) student) studs []"
  obtain grade_keys g2 where sh2: "shuffle (map fst by_grade) g1 = (grade_keys, g2)"
    by (cases "shuffle (map fst by_grade) g1")
  obtain ta1 as1 g3 where gl: "grades_loop by_grade grade_keys (ta0, {}, g2) = (ta1, as1, g3)"
    by (cases "grades_loop by_grade grade_keys (ta0, {}, g2)")
  obtain remaining g4 where sh3: "shuffle (filter (\<lambda>s. s_id s \<notin> as1) studs) g3 = (remaining, g4)"
    by (cases "shuffle (filter (\<lambda>s. s_id s \<notin> as1) studs) g3")
  have rem: "set remaining = {s \<in> set studs. s_id s \<notin> as1}"
    using shuffle_set [of "filter (\<lambda>s. s_id s \<notin> as1) studs" g3] sh3 by simp
  have k0: "fst ` set ta0 = t_table_number ` set (tables d)"
    unfolding ta0_def by (simp add: table_assignments_keys)
  have "dist_inv (map fst ta0) (ta0, {}, g2)" by (simp add: dist_inv_def)
  from grades_loop_inv [OF this, of by_grade grade_keys]
  have inv1: "map fst ta1 = map fst ta0" "as1 \<subseteq> s_id ` listed ta1"
    by (simp_all add: gl dist_inv_def)
  have "ta0 \<noteq> []" using k0 assms(1) by auto
  then have ta1: "ta1 \<noteq> []" using inv1(1) by (metis map_is_Nil_conv)
  from fallback_loop_keys [OF ta1, of remaining as1]
  obtain ta2 where fb: "fallback_loop remaining (ta1, as1) = (ta2, as1 \<union> s_id ` set remaining)"
    and k2: "map fst ta2 = map fst ta1" and l2: "listed ta2 = listed ta1 \<union> set remaining"
    by blast
  have keys: "fst ` set ta2 = t_table_number ` set (tables d)"
    using k2 inv1(1) k0 by (metis set_map)
  have cover: "s_id ` set ?studs0 \<subseteq> s_id ` listed ta2"
  proof
    fix i assume "i \<in> s_id ` set ?studs0"
    then obtain s where s: "s \<in> set studs" "i = s_id s" using studs by auto
    show "i \<in> s_id ` listed ta2"
    proof (cases "i \<in> as1")
      case True
      then show ?thesis using inv1(2) l2 by auto
    next
      case False
      then have "s \<in> set remaining" using s rem by simp
      then show ?thesis using l2 s(2) by auto
    qed
  qed
  have res: "distribute_students_to_tables_smart commit_ok g d
       = (if commit_ok
          then (True, (Successfully_distributed (card (as1 \<union> s_id ` set remaining)), ''success''),
                d\<lparr>students := write_table_numbers ta2 (students d),
                  tables := map (\<lambda>table. table\<lparr>current_count :=
                               int (length (filter (\<lambda>s. s_table_number s = Some (t_table_number table))
                                 (filter (\<lambda>s. s_id s \<in> s_id ` set studs)
                                    (write_table_numbers ta2 (students d)))))\<rparr>) (tables d)\<rparr>)
          else (False, (Error_during_distribution, ''error''), d))"
    using assms(2) tabs sh1 sh2 gl sh3 fb
    by (simp add: distribute_students_to_tables_smart_def Let_def ta0_def by_grade_def)
  show ?thesis
    apply (rule exI [of _ ta2])
    apply (rule exI [of _ "card (as1 \<union> s_id ` set remaining)"])
    apply (rule exI)
    using res keys cover by blast
qed

text \<open>
  Claim C7. A run of the distributor with at least one table (and a commit that succeeds)
  reports success and leaves the students in their rows, and every student who had no
  table before has, after the run, the table number of one of the tables: none stays
  unassigned.
\<close>

theorem distribute_assigns_every_student:
  assumes "tables d \<noteq> []"
  shows "\<exists>flash d'. distribute_students_to_tables_smart True g d = (True, flash, d') \<and>
     length (students d') = length (students d) \<and>
     (\<forall>i<length (students d).
        s_id (students d' ! i) = s_id (students d ! i) \<and>
        (s_table_number (students d ! i) = None \<longrightarrow>
           s_table_number (students d' ! i) \<in> Some ` t_table_number ` set (tables d)))"
proof (cases "filter (\<lambda>s. s_table_number s = None) (students d) = []")
  case True
  then have none: "\<forall>s\<in>set (students d). s_table_number s \<noteq> None"
    by (simp add: filter_empty_conv)
  have "sort_key t_table_number (tables d) \<noteq> []"
    using assms by (simp add: sort_key_Nil_iff)
  then have "distribute_students_to_tables_smart True g d = (True, (No_unassigned_students, ''info''), d)"
    using True by (simp add: distribute_students_to_tables_smart_def)
  then show ?thesis
    apply (intro exI [of _ "(No_unassigned_students, ''info'')"] exI [of _ d])
    using none by simp
next
  case False
  from distribute_run [OF assms False, of True g]
  obtain ta n db_tables where
    res: "distribute_students_to_tables_smart True g d
       = (True, (Successfully_distributed n, ''success''),
          d\<lparr>students := write_table_numbers ta (students d), tables := db_tables\<rparr>)"
    and keys: "fst ` set ta = t_table_number ` set (tables d)"
    and cover: "s_id ` set (filter (\<lambda>s. s_table_number s = None) (students d)) \<subseteq> s_id ` listed ta"
    by auto
  have each: "s_id (write_row ta (students d ! i)) = s_id (students d ! i) \<and>
      (s_table_number (students d ! i) = None \<longrightarrow>
         s_table_number (write_row ta (students d ! i)) \<in> Some ` t_table_number ` set (tables d))"
    if i: "i < length (students d)" for i
  proof -
    let ?r = "students d ! i"
    have a: "s_id (write_row ta ?r) = s_id ?r"
      and b: "s_id ?r \<in> s_id ` listed ta \<longrightarrow> s_table_number (write_row ta ?r) \<in> Some ` fst ` set ta"
      using write_row_spec [of ta ?r] by simp_all
    have "s_id ?r \<in> s_id ` listed ta" if "s_table_number ?r = None"
    proof -
      have "?r \<in> set (filter (\<lambda>s. s_table_number s = None) (students d))"
        using i that by simp
      then show ?thesis using cover by blast
    qed
    with a b show ?thesis unfolding keys by blast
  qed
  show ?thesis
    apply (rule exI [of _ "(Successfully_distributed n, ''success'')"])
    apply (rule exI [of _ "d\<lparr>students := write_table_numbers ta (students d), tables := db_tables\<rparr>"])
    using res each by (simp add: write_table_numbers_map)
qed

theorem distribute_assigns_every_student_witness:
  "tables unassigned_db \<noteq> [] \<and>
   map s_table_number (students unassigned_db) = [Some 1, Some 2, None, None] \<and>
   (\<exists>flash d'. distribute_students_to_tables_smart True [] unassigned_db = (True, flash, d') \<and>
      length (students d') = 4 \<and>
      s_id (students d' ! 2) = 3 \<and> s_table_number (students d' ! 2) \<in> {Some 1, Some 2} \<and>
      s_id (students d' ! 3) = 4 \<and> s_table_number (students d' ! 3) \<in> {Some 1, Some 2})"
proof -
  have h: "tables unassigned_db \<noteq> []" by (simp add: unassigned_db_def example_db_def)
  have s: "students unassigned_db = [alice, bob, carol, dave]" by (simp add: unassigned_db_def)
  have t: "Some ` t_table_number ` set (tables unassigned_db) = {Some 1, Some 2}"
    by (auto simp: unassigned_db_def example_db_def table1_def table2_def)
  have n: "map s_table_number (students unassigned_db) = [Some 1, Some 2, None, None]"
    by (simp add: s alice_def bob_def carol_def dave_def)
  from distribute_assigns_every_student [OF h, of "[]"]
  obtain flash d' where r: "distribute_students_to_tables_smart True [] unassigned_db = (True, flash, d')"
    "length (students d') = length (students unassigned_db)"
    "\<forall>i<length (students unassigned_db).
        s_id (students d' ! i) = s_id (students unassigned_db ! i) \<and>
        (s_table_number (students unassigned_db ! i) = None \<longrightarrow>
           s_table_number (students d' ! i) \<in> Some ` t_table_number ` set (tables unassigned_db))"
    by blast
  from r(3) have "s_id (students d' ! 2) = s_id (students unassigned_db ! 2) \<and>
        (s_table_number (students unassigned_db ! 2) = None \<longrightarrow>
           s_table_number (students d' ! 2) \<in> Some ` t_table_number ` set (tables unassigned_db))"
    "s_id (students d' ! 3) = s_id (students unassigned_db ! 3) \<and>
        (s_table_number (students unassigned_db ! 3) = None \<longrightarrow>
           s_table_number (students d' ! 3) \<in> Some ` t_table_number ` set (tables unassigned_db))"
    by (simp_all add: s)
  then have c: "s_id (students d' ! 2) = 3 \<and> s_table_number (students d' ! 2) \<in> {Some 1, Some 2}"
    "s_id (students d' ! 3) = 4 \<and> s_table_number (students d' ! 3) \<in> {Some 1, Some 2}"
    unfolding t by (simp_all add: s carol_def dave_def)
  show ?thesis
    using h n r(1) r(2) c by (simp add: s)
qed

lemma uniform_range: "0 \<le> fst (uniform 0 2 g) \<and> fst (uniform 0 2 g) < 2"
proof -
  obtain x g' where d: "next_draw g = (x, g')" by (cases "next_draw g")
  have "real (x mod 2 ^ 53) < 2 ^ 53"
    by (metis mod_less_divisor of_nat_less_iff of_nat_numeral of_nat_power zero_less_numeral zero_less_power)
  then have "real (x mod 2 ^ 53) / 2 ^ 53 < 1" by simp
  then show ?thesis by (simp add: uniform_def random_def d)
qed

lemma table_scores_shape:
  "(t, sc) \<in> set (table_scores student ta g) \<Longrightarrow>
   \<exists>l. (t, l) \<in> set ta \<and> real (collisions student l) \<le> sc \<and> sc < real (collisions student l) + 2"
proof (induction ta arbitrary: g)
  case Nil
  then show ?case by simp
next
  case (Cons e ta)
  obtain table_num current_students where e: "e = (table_num, current_students)" by (cases e)
  obtain jitter g1 where u: "uniform 0 2 g = (jitter, g1)" by (cases "uniform 0 2 g")
  have j: "0 \<le> jitter" "jitter < 2" using uniform_range [of g] u by simp_all
  from Cons.prems have "(t, sc) = (table_num, real (collisions student current_students) + jitter)
      \<or> (t, sc) \<in> set (table_scores student ta g1)"
    by (simp add: e u Let_def)
  then show ?case
  proof
    assume "(t, sc) = (table_num, real (collisions student current_students) + jitter)"
    then show ?thesis using j by (intro exI [of _ current_students]) (simp add: e)
  next
    assume "(t, sc) \<in> set (table_scores student ta g1)"
    from Cons.IH [OF this] show ?thesis by (auto simp: e)
  qed
qed

lemma best_table_loop_min:
  assumes "ta \<noteq> [] \<or> best \<noteq> None"
  shows "\<exists>b sb g'. best_table_loop student ta best g = (Some (b, sb), g') \<and>
           ((b, sb) \<in> set (table_scores student ta g) \<or> best = Some (b, sb)) \<and>
           (\<forall>(t, sc)\<in>set (table_scores student ta g). sb \<le> sc) \<and>
           (\<forall>b0 s0. best = Some (b0, s0) \<longrightarrow> sb \<le> s0)"
  using assms
proof (induction ta arbitrary: best g)
  case Nil
  then obtain b0 s0 where "best = Some (b0, s0)" by auto
  then show ?case by simp
next
  case (Cons e ta)
  obtain table_num current_students where e: "e = (table_num, current_students)" by (cases e)
  obtain jitter g1 where u: "uniform 0 2 g = (jitter, g1)" by (cases "uniform 0 2 g")
  define score where "score = real (collisions student current_students) + jitter"
  define best1 where "best1 = (if (case best of None \<Rightarrow> True
      | Some (best_table, best_score) \<Rightarrow> score < best_score)
      then Some (table_num, score) else best)"
  have step: "best_table_loop student (e # ta) best g = best_table_loop student ta best1 g1"
    unfolding best1_def score_def by (simp add: e u Let_def)
  have sc: "table_scores student (e # ta) g = (table_num, score) # table_scores student ta g1"
    unfolding score_def by (simp add: e u Let_def)
  have b1: "best1 \<noteq> None" by (auto simp: best1_def split: option.splits)
  then have "ta \<noteq> [] \<or> best1 \<noteq> None" by simp
  from Cons.IH [OF this, of g1]
  obtain b sb g' where r: "best_table_loop student ta best1 g1 = (Some (b, sb), g')"
    and m: "(b, sb) \<in> set (table_scores student ta g1) \<or> best1 = Some (b, sb)"
    and le: "\<forall>(t, sc)\<in>set (table_scores student ta g1). sb \<le> sc"
    and le1: "\<forall>b0 s0. best1 = Some (b0, s0) \<longrightarrow> sb \<le> s0"
    by blast
  have c1: "(b, sb) \<in> set (table_scores student (e # ta) g) \<or> best = Some (b, sb)"
    using m unfolding sc best1_def by (auto split: if_splits)
  have c2: "sb \<le> score"
    using le1 unfolding best1_def by (auto split: if_splits option.splits)
  have c3: "\<forall>b0 s0. best = Some (b0, s0) \<longrightarrow> sb \<le> s0"
    using le1 unfolding best1_def by (auto split: if_splits option.splits)
  show ?case
    apply (rule exI [of _ b], rule exI [of _ sb], rule exI [of _ g'])
    using r c1 c2 c3 le by (simp add: step sc)
qed

lemma place_student_step:
  assumes "table_assignments \<noteq> []" and "0 \<notin> fst ` set table_assignments"
  shows "\<exists>best_table best_score g'.
     place_student student (table_assignments, assigned_students, g)
       = (dict_append table_assignments best_table student,
          insert (s_id student) assigned_students, g') \<and>
     best_table \<in> fst ` set table_assignments \<and>
     (best_table, best_score) \<in> set (table_scores student table_assignments g) \<and>
     (\<forall>(t, sc)\<in>set (table_scores student table_assignments g).
        best_score \<le> sc \<and>
        (\<exists>current_students. (t, current_students) \<in> set table_assignments \<and>
           real (collisions student current_students) \<le> sc \<and>
           sc < real (collisions student current_students) + 2))"
proof -
  have "table_assignments \<noteq> [] \<or> (None :: (int \<times> real) option) \<noteq> None" using assms(1) by simp
  from best_table_loop_min [OF this, of student g]
  obtain b sb g' where r: "best_table_loop student table_assignments None g = (Some (b, sb), g')"
    and m: "(b, sb) \<in> set (table_scores student table_assignments g)"
    and le: "\<forall>(t, sc)\<in>set (table_scores student table_assignments g). sb \<le> sc"
    by auto
  from best_table_loop_key [OF r] have k: "b \<in> fst ` set table_assignments" by simp
  then have nz: "b \<noteq> 0" using assms(2) by auto
  have p: "place_student student (table_assignments, assigned_students, g)
       = (dict_append table_assignments b student, insert (s_id student) assigned_students, g')"
    using r nz by (simp add: place_student_def)
  have shape: "\<forall>(t, sc)\<in>set (table_scores student table_assignments g).
        sb \<le> sc \<and>
        (\<exists>current_students. (t, current_students) \<in> set table_assignments \<and>
           real (collisions student current_students) \<le> sc \<and>
           sc < real (collisions student current_students) + 2)"
    using le table_scores_shape by fastforce
  show ?thesis
    apply (rule exI [of _ b], rule exI [of _ sb], rule exI [of _ g'])
    using p k m shape by simp
qed



text \<open>
  With at least one table and no table numbered 0, every student of the run is placed by
  \<open>place_student\<close>: the loop over the grades leaves no student for the round-robin
  fallback (\<^verbatim>\<open>remaining_students\<close> is empty).
\<close>

lemma students_loop_places:
  assumes "ta \<noteq> []" and "0 \<notin> fst ` set ta"
  shows "\<exists>ta' g'. students_loop l (ta, assigned, g) = (ta', assigned \<union> s_id ` set l, g') \<and>
           map fst ta' = map fst ta"
  using assms
proof (induction l arbitrary: ta assigned g)
  case Nil
  then show ?case by simp
next
  case (Cons student l)
  from place_student_step [OF Cons.prems, of student assigned g]
  obtain b g1 where p: "place_student student (ta, assigned, g)
       = (dict_append ta b student, insert (s_id student) assigned, g1)"
    and k: "b \<in> fst ` set ta" by blast
  have keys: "map fst (dict_append ta b student) = map fst ta" by (rule dict_append_keys [OF k])
  have ne: "dict_append ta b student \<noteq> []" using keys Cons.prems(1) by (metis map_is_Nil_conv)
  have nz: "0 \<notin> fst ` set (dict_append ta b student)"
    using keys Cons.prems(2) by (metis set_map)
  from Cons.IH [OF ne nz, of "insert (s_id student) assigned" g1]
  obtain ta' g' where "students_loop l (dict_append ta b student, insert (s_id student) assigned, g1)
      = (ta', insert (s_id student) assigned \<union> s_id ` set l, g')"
    "map fst ta' = map fst (dict_append ta b student)" by blast
  then show ?case
    using Cons.prems(1) p keys by (intro exI [of _ ta'] exI [of _ g']) simp
qed

lemma grades_loop_places:
  assumes "ta \<noteq> []" and "0 \<notin> fst ` set ta"
  shows "\<exists>ta' assigned' g'. grades_loop by_grade ks (ta, assigned, g) = (ta', assigned', g') \<and>
           map fst ta' = map fst ta \<and>
           assigned \<union> (\<Union>k\<in>set ks. s_id ` set (dict_getitem_default by_grade k)) \<subseteq> assigned'"
  using assms
proof (induction ks arbitrary: ta assigned g)
  case Nil
  then show ?case by simp
next
  case (Cons k ks)
  let ?group = "dict_getitem_default by_grade k"
  obtain l g1 where sh: "shuffle (filter (\<lambda>s. s_id s \<notin> assigned) ?group) g = (l, g1)"
    by (cases "shuffle (filter (\<lambda>s. s_id s \<notin> assigned) ?group) g")
  have l: "set l = {s \<in> set ?group. s_id s \<notin> assigned}"
    using shuffle_set [of "filter (\<lambda>s. s_id s \<notin> assigned) ?group" g] sh by simp
  from students_loop_places [OF Cons.prems, of l assigned g1]
  obtain ta1 g2 where sl: "students_loop l (ta, assigned, g1) = (ta1, assigned \<union> s_id ` set l, g2)"
    and k1: "map fst ta1 = map fst ta" by blast
  have ne: "ta1 \<noteq> []" using k1 Cons.prems(1) by (metis map_is_Nil_conv)
  have nz: "0 \<notin> fst ` set ta1" using k1 Cons.prems(2) by (metis set_map)
  from Cons.IH [OF ne nz, of "assigned \<union> s_id ` set l" g2]
  obtain ta' assigned' g' where
    r: "grades_loop by_grade ks (ta1, assigned \<union> s_id ` set l, g2) = (ta', assigned', g')"
    and k2: "map fst ta' = map fst ta1"
    and sub: "(assigned \<union> s_id ` set l) \<union> (\<Union>k\<in>set ks. s_id ` set (dict_getitem_default by_grade k))
               \<subseteq> assigned'" by blast
  have grp: "s_id ` set ?group \<subseteq> assigned \<union> s_id ` set l"
    using l by auto
  have "assigned \<union> (\<Union>k\<in>set (k # ks). s_id ` set (dict_getitem_default by_grade k)) \<subseteq> assigned'"
    using sub grp by auto
  then show ?case
    using r k1 k2 sh sl
    by (intro exI [of _ ta'] exI [of _ assigned'] exI [of _ g']) simp
qed

lemma getitem_dict_append:
  "dict_getitem_default (dict_append d k x) k'
     = (if k' = k then dict_getitem_default d k @ [x] else dict_getitem_default d k')"
  by (induction d) (auto simp: dict_getitem_default_def)

lemma dict_append_keys_set: "fst ` set (dict_append d k x) = insert k (fst ` set d)"
proof (induction d)
  case Nil
  then show ?case by simp
next
  case (Cons e d)
  obtain k' v' where e: "e = (k', v')" by (cases e)
  show ?case
  proof (cases "k' = k")
    case True
    then show ?thesis by (simp add: e)
  next
    case False
    then show ?thesis using Cons.IH by (simp add: e insert_commute)
  qed
qed

lemma by_grade_groups:
  "dict_getitem_default (fold (\<lambda>student bg. dict_append bg (f student) student) studs d) k
     = dict_getitem_default d k @ filter (\<lambda>s. f s = k) studs"
  by (induction studs arbitrary: d) (auto simp: getitem_dict_append)

lemma by_grade_keys:
  "fst ` set (fold (\<lambda>student bg. dict_append bg (f student) student) studs d)
     = fst ` set d \<union> f ` set studs"
  by (induction studs arbitrary: d) (auto simp: dict_append_keys_set)

lemma main_loop_places_every_student:
  assumes "ta \<noteq> []" and "0 \<notin> fst ` set ta"
    and "by_grade = fold (\<lambda>student bg. dict_append bg (grade_key student) student) studs []"
    and "set grade_keys = fst ` set by_grade"
  shows "filter (\<lambda>s. s_id s \<notin> fst (snd (grades_loop by_grade grade_keys (ta, assigned, g)))) studs = []"
proof -
  from grades_loop_places [OF assms(1,2), of by_grade grade_keys assigned g]
  obtain ta' assigned' g' where
    r: "grades_loop by_grade grade_keys (ta, assigned, g) = (ta', assigned', g')"
    and sub: "assigned \<union> (\<Union>k\<in>set grade_keys. s_id ` set (dict_getitem_default by_grade k))
               \<subseteq> assigned'" by blast
  have "s_id s \<in> assigned'" if s: "s \<in> set studs" for s
  proof -
    have k: "grade_key s \<in> set grade_keys"
      unfolding assms(4) assms(3) by_grade_keys using s by simp
    have "s \<in> set (dict_getitem_default by_grade (grade_key s))"
      unfolding assms(3) by_grade_groups using s by (simp add: dict_getitem_default_def)
    then show ?thesis using k sub by blast
  qed
  then show ?thesis by (simp add: r filter_empty_conv)
qed

section \<open>The counts after a move by hand\<close>

text \<open>
  The other operation of claim C1. \<^verbatim>\<open>change_student_table\<close> counts over all the students
  of the table, for the table the student leaves and for the table the student joins: when
  the counts were right before the move, the primary keys and the table numbers are unique
  and no table has the number 0, they are right after it (with both commits succeeding).
\<close>

lemma set_first_current_count_map:
  "distinct (map t_table_number tabs) \<Longrightarrow>
   set_first_current_count n c tabs
     = map (\<lambda>t. if t_table_number t = n then t\<lparr>current_count := c\<rparr> else t) tabs"
proof (induction tabs)
  case Nil
  then show ?case by simp
next
  case (Cons t ts)
  show ?case
  proof (cases "t_table_number t = n")
    case True
    moreover have "t_table_number t \<notin> t_table_number ` set ts" using Cons.prems by simp
    ultimately have "\<forall>x\<in>set ts. t_table_number x \<noteq> n" by (metis imageI)
    then have "map (\<lambda>t. if t_table_number t = n then t\<lparr>current_count := c\<rparr> else t) ts = ts"
      by (intro map_idI) simp
    then show ?thesis using True by simp
  next
    case False
    then show ?thesis using Cons by simp
  qed
qed

lemma filter_after_move:
  assumes "\<forall>s\<in>set studs. s_id s = pk \<longrightarrow> s_table_number s = old"
    and "Some m \<noteq> old" and "Some m \<noteq> v"
  shows "students_filter_by_table_number (set_table_number pk v studs) m
           = students_filter_by_table_number studs m"
  using assms(1)
proof (induction studs)
  case Nil
  then show ?case by (simp add: students_filter_by_table_number_def set_table_number_def)
next
  case (Cons s studs)
  then have ih: "students_filter_by_table_number (set_table_number pk v studs) m
           = students_filter_by_table_number studs m" by simp
  show ?case
  proof (cases "s_id s = pk")
    case True
    then have "s_table_number s = old" using Cons.prems by simp
    then show ?thesis
      using True ih assms(2,3)
      by (auto simp: students_filter_by_table_number_def set_table_number_def)
  next
    case False
    then show ?thesis
      using ih by (simp add: students_filter_by_table_number_def set_table_number_def)
  qed
qed

lemma change_student_table_keeps_counts:
  assumes cons: "counts_consistent d"
    and dt: "distinct (map t_table_number (tables d))"
    and ds: "distinct (map s_id (students d))"
    and nz: "0 \<notin> t_table_number ` set (tables d)"
  shows "counts_consistent (snd (change_student_table student_pk new_table_number True True d))"
proof (cases "find (\<lambda>s. s_id s = student_pk) (students d)")
  case None
  then show ?thesis using cons by (simp add: change_student_table_def)
next
  case (Some student)
  then have st: "student \<in> set (students d)" "s_id student = student_pk"
    by (auto simp: find_Some_iff)
  define old where "old = s_table_number student"
  have same: "\<forall>s\<in>set (students d). s_id s = student_pk \<longrightarrow> s_table_number s = old"
  proof (intro ballI impI)
    fix s assume "s \<in> set (students d)" "s_id s = student_pk"
    then have "s = student"
      using ds st by (auto simp: distinct_map inj_on_def)
    then show "s_table_number s = old" by (simp add: old_def)
  qed
  show ?thesis
  proof (cases "new_table_number \<noteq> Some 0 \<and>
                find (\<lambda>t. Some (t_table_number t) = new_table_number) (tables d) = None")
    case True
    then show ?thesis using Some cons by (simp add: change_student_table_def)
  next
    case False
    define v where "v = (if new_table_number = Some 0 then None else new_table_number)"
    define studs where "studs = set_table_number student_pk v (students d)"
    define g1 :: "Table \<Rightarrow> Table" where "g1 = (\<lambda>t. case old of None \<Rightarrow> t
        | Some n \<Rightarrow> if n \<noteq> 0 \<and> t_table_number t = n
            then t\<lparr>current_count := int (length (students_filter_by_table_number studs n))\<rparr> else t)"
    define g2 :: "Table \<Rightarrow> Table" where "g2 = (\<lambda>t. case new_table_number of None \<Rightarrow> t
        | Some n \<Rightarrow> if n \<noteq> 0 \<and> t_table_number t = n
            then t\<lparr>current_count := int (length (students_filter_by_table_number studs n))\<rparr> else t)"
    have n1: "t_table_number (g1 t) = t_table_number t" for t
      by (simp add: g1_def split: option.splits)
    have n2: "t_table_number (g2 t) = t_table_number t" for t
      by (simp add: g2_def split: option.splits)
    have t1: "(case old of None \<Rightarrow> tables d
               | Some n \<Rightarrow> if n \<noteq> 0
                   then set_first_current_count n
                          (int (length (students_filter_by_table_number studs n))) (tables d)
                   else tables d) = map g1 (tables d)"
      by (auto simp: g1_def set_first_current_count_map [OF dt] split: option.splits)
    have dt1: "distinct (map t_table_number (map g1 (tables d)))"
      using dt by (simp add: comp_def n1)
    have t2: "(case new_table_number of None \<Rightarrow> map g1 (tables d)
               | Some n \<Rightarrow> if n \<noteq> 0
                   then set_first_current_count n
                          (int (length (students_filter_by_table_number studs n))) (map g1 (tables d))
                   else map g1 (tables d)) = map g2 (map g1 (tables d))"
      by (auto simp: g2_def set_first_current_count_map [OF dt1] split: option.splits)
    have "snd (change_student_table student_pk new_table_number True True d)
        = d\<lparr>students := studs,
            tables := (case new_table_number of
                None \<Rightarrow> (case old of None \<Rightarrow> tables d
                    | Some n \<Rightarrow> if n \<noteq> 0
                        then set_first_current_count n
                               (int (length (students_filter_by_table_number studs n))) (tables d)
                        else tables d)
              | Some n \<Rightarrow> if n \<noteq> 0
                  then set_first_current_count n
                         (int (length (students_filter_by_table_number studs n)))
                         (case old of None \<Rightarrow> tables d
                          | Some n \<Rightarrow> if n \<noteq> 0
                              then set_first_current_count n
                                     (int (length (students_filter_by_table_number studs n))) (tables d)
                              else tables d)
                  else (case old of None \<Rightarrow> tables d
                    | Some n \<Rightarrow> if n \<noteq> 0
                        then set_first_current_count n
                               (int (length (students_filter_by_table_number studs n))) (tables d)
                        else tables d))\<rparr>"
      unfolding change_student_table_def Some option.case Let_def if_not_P [OF False]
        studs_def v_def old_def
      by simp
    then have res: "snd (change_student_table student_pk new_table_number True True d)
        = d\<lparr>students := studs, tables := map g2 (map g1 (tables d))\<rparr>"
      unfolding t1 t2 .
    have ok: "current_count (g2 (g1 t))
        = int (length (students_filter_by_table_number studs (t_table_number t)))"
      if t: "t \<in> set (tables d)" for t
    proof -
      let ?m = "t_table_number t"
      have m0: "?m \<noteq> 0" using nz t by auto
      show ?thesis
      proof (cases "new_table_number = Some ?m")
        case True
        then show ?thesis using m0 by (simp add: g2_def n1)
      next
        case new: False
        then have g2id: "g2 (g1 t) = g1 t"
          by (auto simp: g2_def n1 split: option.splits)
        have vm: "Some ?m \<noteq> v" using new by (auto simp: v_def)
        show ?thesis
        proof (cases "old = Some ?m")
          case True
          then show ?thesis using m0 unfolding g2id by (simp add: g1_def)
        next
          case old: False
          then have g1id: "g1 t = t" by (auto simp: g1_def split: option.splits)
          have "current_count t
              = int (length (students_filter_by_table_number (students d) ?m))"
            using cons t by (simp add: counts_consistent_def)
          also have "students_filter_by_table_number (students d) ?m
              = students_filter_by_table_number studs ?m"
            unfolding studs_def
            using filter_after_move [OF same, of ?m v] old vm by simp
          finally have "current_count t
              = int (length (students_filter_by_table_number studs ?m))" .
          moreover have "g2 (g1 t) = t" using g2id g1id by simp
          ultimately show ?thesis by simp
        qed
      qed
    qed
    show ?thesis
      unfolding res counts_consistent_def using ok by (simp add: n1 n2)
  qed
qed

end
